theory Spec2Isabelle
  imports Main "HOL-Library.Word" "HOL-Library.Multiset"
begin

unbundle bit_operations_syntax

section \<open>Bytes and network byte order\<close>

type_synonym byte = "8 word"

text \<open>
  \<open>htons\<close>/\<open>htonl\<close> followed by a byte-wise copy of the converted integer puts the most
  significant byte first, whatever the host's byte order is; \<open>ntohs\<close>/\<open>ntohl\<close> of the
  bytes read in place is the inverse.
\<close>

definition be16 :: "16 word \<Rightarrow> byte list" where
  "be16 v = [ucast (drop_bit 8 v), ucast v]"

definition be32 :: "32 word \<Rightarrow> byte list" where
  "be32 v = [ucast (drop_bit 24 v), ucast (drop_bit 16 v), ucast (drop_bit 8 v), ucast v]"

definition read_be16 :: "byte list \<Rightarrow> nat \<Rightarrow> 16 word" where
  "read_be16 data off = push_bit 8 (ucast (data ! off)) OR ucast (data ! (off + 1))"

definition read_be32 :: "byte list \<Rightarrow> nat \<Rightarrow> 32 word" where
  "read_be32 data off =
     push_bit 24 (ucast (data ! off)) OR push_bit 16 (ucast (data ! (off + 1))) OR
     push_bit 8 (ucast (data ! (off + 2))) OR ucast (data ! (off + 3))"

section \<open>SOME/IP message (someip/types.h, someip/message.h, someip/message.cpp)\<close>

record MessageId =
  service_id :: "16 word"
  method_id :: "16 word"

record RequestId =
  client_id :: "16 word"
  session_id :: "16 word"

definition MessageId_to_uint32 :: "MessageId \<Rightarrow> 32 word" where
  "MessageId_to_uint32 i = push_bit 16 (ucast (service_id i)) OR ucast (method_id i)"

definition MessageId_from_uint32 :: "32 word \<Rightarrow> MessageId" where
  "MessageId_from_uint32 v =
     \<lparr>service_id = ucast (drop_bit 16 v), method_id = ucast (v AND 0xFFFF)\<rparr>"

definition RequestId_to_uint32 :: "RequestId \<Rightarrow> 32 word" where
  "RequestId_to_uint32 i = push_bit 16 (ucast (client_id i)) OR ucast (session_id i)"

definition RequestId_from_uint32 :: "32 word \<Rightarrow> RequestId" where
  "RequestId_from_uint32 v =
     \<lparr>client_id = ucast (drop_bit 16 v), session_id = ucast (v AND 0xFFFF)\<rparr>"

definition SOMEIP_PROTOCOL_VERSION :: byte where
  "SOMEIP_PROTOCOL_VERSION = 0x01"

definition SOMEIP_INTERFACE_VERSION :: byte where
  "SOMEIP_INTERFACE_VERSION = 0x01"

text \<open>
  \<open>MessageType\<close> and \<open>ReturnCode\<close> are enum classes over \<open>uint8_t\<close>; \<open>deserialize\<close>
  casts any received byte into them, so a field holds an arbitrary byte and the
  enumerators are the byte values listed in types.h.
\<close>

definition MessageType_values :: "byte list" where
  "MessageType_values = [0x00, 0x01, 0x02, 0x40, 0x80, 0x81, 0xC0, 0xC1, 0x20, 0x21, 0x22]"

definition ReturnCode_values :: "byte list" where
  "ReturnCode_values =
     [0x00, 0x01, 0x02, 0x03, 0x04, 0x05, 0x06, 0x07, 0x08, 0x09, 0x0A, 0x0B, 0x0C, 0x0D,
      0x0E, 0x0F]"

text \<open>The timestamp member is diagnostic metadata read from the clock; it is left out.\<close>

record Message =
  message_id :: MessageId
  msg_length :: "32 word"
  request_id :: RequestId
  protocol_version :: byte
  interface_version :: byte
  message_type :: byte
  return_code :: byte
  payload :: "byte list"

definition HEADER_SIZE :: nat where
  "HEADER_SIZE = 16"

definition MIN_MESSAGE_SIZE :: nat where
  "MIN_MESSAGE_SIZE = HEADER_SIZE"

definition MAX_TCP_PAYLOAD_SIZE :: nat where
  "MAX_TCP_PAYLOAD_SIZE = 65535"

definition set_length :: "32 word \<Rightarrow> Message \<Rightarrow> Message" where
  "set_length len m = m\<lparr>msg_length := len\<rparr>"

text \<open>\<open>length_ = 8 + payload_.size()\<close>: the sum is narrowed to \<open>uint32_t\<close>.\<close>

definition update_length :: "Message \<Rightarrow> Message" where
  "update_length m = m\<lparr>msg_length := of_nat (8 + length (payload m))\<rparr>"

definition set_payload :: "byte list \<Rightarrow> Message \<Rightarrow> Message" where
  "set_payload p m = update_length (m\<lparr>payload := p\<rparr>)"

definition Message_serialize :: "Message \<Rightarrow> byte list" where
  "Message_serialize m =
     be32 (MessageId_to_uint32 (message_id m)) @
     be32 (msg_length m) @
     be32 (RequestId_to_uint32 (request_id m)) @
     [protocol_version m, interface_version m, message_type m, return_code m] @
     payload m"

definition has_valid_header :: "Message \<Rightarrow> bool" where
  "has_valid_header m =
     (if protocol_version m \<noteq> SOMEIP_PROTOCOL_VERSION then False
      else if interface_version m \<noteq> SOMEIP_INTERFACE_VERSION then False
      else if (8 + msg_length m :: 32 word) \<noteq> of_nat (HEADER_SIZE + length (payload m))
        then False
      else if message_type m \<notin> set MessageType_values then False
      else if return_code m \<notin> set ReturnCode_values then False
      else True)"

definition has_valid_payload :: "Message \<Rightarrow> bool" where
  "has_valid_payload m = (length (payload m) \<le> MAX_TCP_PAYLOAD_SIZE)"

definition is_valid :: "Message \<Rightarrow> bool" where
  "is_valid m = (has_valid_header m \<and> has_valid_payload m)"

text \<open>
  \<open>deserialize\<close> overwrites the members of the object it is called on one by one and
  returns \<open>false\<close> at the first failed check, so the model takes the object and returns
  it together with the result.
\<close>

definition Message_deserialize :: "Message \<Rightarrow> byte list \<Rightarrow> bool \<times> Message" where
  "Message_deserialize this data =
     (if length data < MIN_MESSAGE_SIZE then (False, this)
      else if 0 + 4 > length data then (False, this)
      else let m1 = this\<lparr>message_id := MessageId_from_uint32 (read_be32 data 0)\<rparr> in
      if 4 + 4 > length data then (False, m1)
      else let m2 = m1\<lparr>msg_length := read_be32 data 4\<rparr> in
      if 8 + 4 > length data then (False, m2)
      else let m3 = m2\<lparr>request_id := RequestId_from_uint32 (read_be32 data 8)\<rparr> in
      if 12 + 1 > length data then (False, m3)
      else let m4 = m3\<lparr>protocol_version := data ! 12\<rparr> in
      if 13 + 1 > length data then (False, m4)
      else let m5 = m4\<lparr>interface_version := data ! 13\<rparr> in
      if 14 + 1 > length data then (False, m5)
      else let m6 = m5\<lparr>message_type := data ! 14\<rparr> in
      if 15 + 1 > length data then (False, m6)
      else let m7 = m6\<lparr>return_code := data ! 15\<rparr> in
      if msg_length m7 < 8 then (False, m7)
      else let expected_payload_size = unat (msg_length m7 - 8);
               actual_payload_size = length data - 16 in
      if actual_payload_size \<noteq> expected_payload_size then (False, m7)
      else let m8 = m7\<lparr>payload := drop 16 data\<rparr> in
      (is_valid m8, m8))"

text \<open>The default constructor: no payload, length 8, \<open>REQUEST\<close>, \<open>E_OK\<close>.\<close>

definition Message_default :: Message where
  "Message_default =
     \<lparr>message_id = \<lparr>service_id = 0, method_id = 0\<rparr>, msg_length = 8,
      request_id = \<lparr>client_id = 0, session_id = 0\<rparr>,
      protocol_version = SOMEIP_PROTOCOL_VERSION, interface_version = SOMEIP_INTERFACE_VERSION,
      message_type = 0x00, return_code = 0x00, payload = []\<rparr>"

text \<open>
  The four-argument constructor followed by \<open>set_payload\<close>, as the tests build their
  messages.
\<close>

definition Message_make ::
    "MessageId \<Rightarrow> RequestId \<Rightarrow> byte \<Rightarrow> byte \<Rightarrow> byte list \<Rightarrow> Message" where
  "Message_make mid rid mt rc p =
     set_payload p
       (update_length
          \<lparr>message_id = mid, msg_length = 8, request_id = rid,
           protocol_version = SOMEIP_PROTOCOL_VERSION,
           interface_version = SOMEIP_INTERFACE_VERSION,
           message_type = mt, return_code = rc, payload = []\<rparr>)"

definition hello_message :: Message where
  "hello_message =
     Message_make \<lparr>service_id = 0x1000, method_id = 0x0001\<rparr>
       \<lparr>client_id = 0x1234, session_id = 0x5678\<rparr> 0x00 0x00 [0x48, 0x65, 0x6C, 0x6C, 0x6F]"

section \<open>Wire primitives: the reader (common/result.h, serialization/serializer.cpp)\<close>

datatype Result =
    SUCCESS | NETWORK_ERROR | NOT_CONNECTED | CONNECTION_LOST | CONNECTION_REFUSED | TIMEOUT
  | INVALID_ENDPOINT | INVALID_MESSAGE | INVALID_MESSAGE_TYPE | INVALID_SERVICE_ID
  | INVALID_METHOD_ID | INVALID_PROTOCOL_VERSION | INVALID_INTERFACE_VERSION
  | MALFORMED_MESSAGE | INVALID_SESSION_ID | SESSION_EXPIRED | SESSION_NOT_FOUND
  | OUT_OF_MEMORY | BUFFER_OVERFLOW | RESOURCE_EXHAUSTED | SERVICE_NOT_FOUND
  | SERVICE_UNAVAILABLE | SUBSCRIPTION_FAILED | SAFETY_VIOLATION | FAULT_DETECTED
  | RECOVERY_FAILED | NOT_IMPLEMENTED | INVALID_ARGUMENT | PERMISSION_DENIED
  | INTERNAL_ERROR | NOT_INITIALIZED | INVALID_STATE | UNKNOWN_ERROR

text \<open>
  \<open>DeserializationResult<T>\<close> is an error code or a value: \<open>Inl\<close> carries the error.
  Every operation may move the cursor, so it returns the reader as well.
\<close>

type_synonym 'a DeserializationResult = "Result + 'a"

record Deserializer =
  buffer :: "byte list"
  position :: nat

definition Deserializer_init :: "byte list \<Rightarrow> Deserializer" where
  "Deserializer_init data = \<lparr>buffer = data, position = 0\<rparr>"

definition read_be64 :: "byte list \<Rightarrow> nat \<Rightarrow> 64 word" where
  "read_be64 data off =
     push_bit 56 (ucast (data ! off)) OR push_bit 48 (ucast (data ! (off + 1))) OR
     push_bit 40 (ucast (data ! (off + 2))) OR push_bit 32 (ucast (data ! (off + 3))) OR
     push_bit 24 (ucast (data ! (off + 4))) OR push_bit 16 (ucast (data ! (off + 5))) OR
     push_bit 8 (ucast (data ! (off + 6))) OR ucast (data ! (off + 7))"

definition read_be_uint16 :: "Deserializer \<Rightarrow> 16 word option \<times> Deserializer" where
  "read_be_uint16 d =
     (if position d + 2 > length (buffer d) then (None, d)
      else (Some (read_be16 (buffer d) (position d)), d\<lparr>position := position d + 2\<rparr>))"

definition read_be_uint32 :: "Deserializer \<Rightarrow> 32 word option \<times> Deserializer" where
  "read_be_uint32 d =
     (if position d + 4 > length (buffer d) then (None, d)
      else (Some (read_be32 (buffer d) (position d)), d\<lparr>position := position d + 4\<rparr>))"

text \<open>
  \<open>read_be_uint64\<close> copies eight bytes and reverses them by hand, which on the
  little-endian hosts the code is written for reads the bytes most significant first.
\<close>

definition read_be_uint64 :: "Deserializer \<Rightarrow> 64 word option \<times> Deserializer" where
  "read_be_uint64 d =
     (if position d + 8 > length (buffer d) then (None, d)
      else (Some (read_be64 (buffer d) (position d)), d\<lparr>position := position d + 8\<rparr>))"

definition deserialize_bool :: "Deserializer \<Rightarrow> bool DeserializationResult \<times> Deserializer" where
  "deserialize_bool d =
     (if position d + 1 > length (buffer d) then (Inl MALFORMED_MESSAGE, d)
      else (Inr (buffer d ! position d \<noteq> 0x00), d\<lparr>position := position d + 1\<rparr>))"

definition deserialize_uint8 :: "Deserializer \<Rightarrow> byte DeserializationResult \<times> Deserializer" where
  "deserialize_uint8 d =
     (if position d + 1 > length (buffer d) then (Inl MALFORMED_MESSAGE, d)
      else (Inr (buffer d ! position d), d\<lparr>position := position d + 1\<rparr>))"

definition deserialize_uint16 ::
    "Deserializer \<Rightarrow> 16 word DeserializationResult \<times> Deserializer" where
  "deserialize_uint16 d =
     (case read_be_uint16 d of
        (None, d') \<Rightarrow> (Inl MALFORMED_MESSAGE, d')
      | (Some v, d') \<Rightarrow> (Inr v, d'))"

definition deserialize_uint32 ::
    "Deserializer \<Rightarrow> 32 word DeserializationResult \<times> Deserializer" where
  "deserialize_uint32 d =
     (case read_be_uint32 d of
        (None, d') \<Rightarrow> (Inl MALFORMED_MESSAGE, d')
      | (Some v, d') \<Rightarrow> (Inr v, d'))"

definition deserialize_uint64 ::
    "Deserializer \<Rightarrow> 64 word DeserializationResult \<times> Deserializer" where
  "deserialize_uint64 d =
     (case read_be_uint64 d of
        (None, d') \<Rightarrow> (Inl MALFORMED_MESSAGE, d')
      | (Some v, d') \<Rightarrow> (Inr v, d'))"

text \<open>
  The signed readers cast the unsigned value; a word carries both readings (\<open>sint\<close> is
  the signed one), so the cast is the identity on the bits. \<open>float\<close> and \<open>double\<close> are
  copied bit for bit from the unsigned value and are represented by their bit patterns.
\<close>

definition deserialize_int8 :: "Deserializer \<Rightarrow> byte DeserializationResult \<times> Deserializer" where
  "deserialize_int8 d =
     (case deserialize_uint8 d of
        (Inl e, d') \<Rightarrow> (Inl e, d')
      | (Inr v, d') \<Rightarrow> (Inr v, d'))"

definition deserialize_int16 ::
    "Deserializer \<Rightarrow> 16 word DeserializationResult \<times> Deserializer" where
  "deserialize_int16 d =
     (case read_be_uint16 d of
        (None, d') \<Rightarrow> (Inl MALFORMED_MESSAGE, d')
      | (Some v, d') \<Rightarrow> (Inr v, d'))"

definition deserialize_int32 ::
    "Deserializer \<Rightarrow> 32 word DeserializationResult \<times> Deserializer" where
  "deserialize_int32 d =
     (case read_be_uint32 d of
        (None, d') \<Rightarrow> (Inl MALFORMED_MESSAGE, d')
      | (Some v, d') \<Rightarrow> (Inr v, d'))"

definition deserialize_int64 ::
    "Deserializer \<Rightarrow> 64 word DeserializationResult \<times> Deserializer" where
  "deserialize_int64 d =
     (case read_be_uint64 d of
        (None, d') \<Rightarrow> (Inl MALFORMED_MESSAGE, d')
      | (Some v, d') \<Rightarrow> (Inr v, d'))"

definition read_be_float :: "Deserializer \<Rightarrow> 32 word option \<times> Deserializer" where
  "read_be_float d =
     (case read_be_uint32 d of (None, d') \<Rightarrow> (None, d') | (Some bits, d') \<Rightarrow> (Some bits, d'))"

definition read_be_double :: "Deserializer \<Rightarrow> 64 word option \<times> Deserializer" where
  "read_be_double d =
     (case read_be_uint64 d of (None, d') \<Rightarrow> (None, d') | (Some bits, d') \<Rightarrow> (Some bits, d'))"

definition deserialize_float ::
    "Deserializer \<Rightarrow> 32 word DeserializationResult \<times> Deserializer" where
  "deserialize_float d =
     (case read_be_float d of
        (None, d') \<Rightarrow> (Inl MALFORMED_MESSAGE, d')
      | (Some v, d') \<Rightarrow> (Inr v, d'))"

definition deserialize_double ::
    "Deserializer \<Rightarrow> 64 word DeserializationResult \<times> Deserializer" where
  "deserialize_double d =
     (case read_be_double d of
        (None, d') \<Rightarrow> (Inl MALFORMED_MESSAGE, d')
      | (Some v, d') \<Rightarrow> (Inr v, d'))"

definition skip :: "nat \<Rightarrow> Deserializer \<Rightarrow> Deserializer" where
  "skip bytes d = d\<lparr>position := min (position d + bytes) (length (buffer d))\<rparr>"

text \<open>\<open>align_to\<close> is only ever called with alignment 4; a zero alignment would divide by zero.\<close>

definition align_to :: "nat \<Rightarrow> Deserializer \<Rightarrow> Deserializer" where
  "align_to alignment d =
     (let padding = (alignment - (position d mod alignment)) mod alignment in skip padding d)"

text \<open>A \<open>std::string\<close> is the sequence of its bytes.\<close>

definition deserialize_string ::
    "Deserializer \<Rightarrow> byte list DeserializationResult \<times> Deserializer" where
  "deserialize_string d =
     (case deserialize_uint32 d of
        (Inl e, d1) \<Rightarrow> (Inl e, d1)
      | (Inr len, d1) \<Rightarrow>
          if position d1 + unat len > length (buffer d1) then (Inl MALFORMED_MESSAGE, d1)
          else
            let result = take (unat len) (drop (position d1) (buffer d1));
                d2 = d1\<lparr>position := position d1 + unat len\<rparr>
            in (Inr result, align_to 4 d2))"

section \<open>Service-discovery entries and messages (sd/sd_message.h, sd/sd_message.cpp)\<close>

text \<open>
  \<open>EntryType\<close> is an enum class over \<open>uint8_t\<close> that \<open>deserialize\<close> fills by a cast
  from the received byte, so the field is a byte: \<open>FIND_SERVICE\<close> is 0x00,
  \<open>OFFER_SERVICE\<close> 0x01, \<open>SUBSCRIBE_EVENTGROUP\<close> 0x06, \<open>SUBSCRIBE_EVENTGROUP_ACK\<close> 0x07.
\<close>

record SdEntry =
  entry_type :: byte
  index1 :: byte
  index2 :: byte
  ttl :: "32 word"

record ServiceEntry = SdEntry +
  se_service_id :: "16 word"
  se_instance_id :: "16 word"
  se_major_version :: byte
  se_minor_version :: byte

record EventGroupEntry = SdEntry +
  eg_service_id :: "16 word"
  eg_instance_id :: "16 word"
  eventgroup_id :: "16 word"
  eg_major_version :: byte

definition ServiceEntry_default :: ServiceEntry where
  "ServiceEntry_default =
     \<lparr>entry_type = 0x00, index1 = 0, index2 = 0, ttl = 0, se_service_id = 0,
      se_instance_id = 0, se_major_version = 0, se_minor_version = 0\<rparr>"

definition EventGroupEntry_default :: EventGroupEntry where
  "EventGroupEntry_default =
     \<lparr>entry_type = 0x06, index1 = 0, index2 = 0, ttl = 0, eg_service_id = 0,
      eg_instance_id = 0, eventgroup_id = 0, eg_major_version = 0\<rparr>"

text \<open>The base class writes fourteen bytes: ten for the fields up to the major version, four for the ttl.\<close>

definition SdEntry_serialize :: "'a SdEntry_scheme \<Rightarrow> byte list" where
  "SdEntry_serialize e =
     [entry_type e, index1 e, index2 e, 0, 0, 0, 0, 0, 0, 0,
      ucast (drop_bit 24 (ttl e) AND 0xFF), ucast (drop_bit 16 (ttl e) AND 0xFF),
      ucast (drop_bit 8 (ttl e) AND 0xFF), ucast (ttl e AND 0xFF)]"

definition ServiceEntry_serialize :: "ServiceEntry \<Rightarrow> byte list" where
  "ServiceEntry_serialize e =
     (SdEntry_serialize e)
       [4 := ucast (drop_bit 8 (se_service_id e) AND 0xFF),
        5 := ucast (se_service_id e AND 0xFF),
        6 := ucast (drop_bit 8 (se_instance_id e) AND 0xFF),
        7 := ucast (se_instance_id e AND 0xFF),
        8 := se_major_version e]"

definition EventGroupEntry_serialize :: "EventGroupEntry \<Rightarrow> byte list" where
  "EventGroupEntry_serialize e =
     (SdEntry_serialize e)
       [4 := ucast (drop_bit 8 (eg_service_id e) AND 0xFF),
        5 := ucast (eg_service_id e AND 0xFF),
        6 := ucast (drop_bit 8 (eg_instance_id e) AND 0xFF),
        7 := ucast (eg_instance_id e AND 0xFF),
        8 := eg_major_version e]
     @ [ucast (drop_bit 8 (eventgroup_id e) AND 0xFF), ucast (eventgroup_id e AND 0xFF)]"

text \<open>
  The \<open>deserialize\<close> methods take the offset by reference and return a bool: the model
  returns the result, the entry as it was left, and the offset.
\<close>

definition SdEntry_deserialize ::
    "'a SdEntry_scheme \<Rightarrow> byte list \<Rightarrow> nat \<Rightarrow> bool \<times> 'a SdEntry_scheme \<times> nat" where
  "SdEntry_deserialize this data offset =
     (if offset + 16 > length data then (False, this, offset)
      else (True,
            this\<lparr>entry_type := data ! offset, index1 := data ! (offset + 1),
                 index2 := data ! (offset + 2)\<rparr>,
            offset + 5))"

definition ServiceEntry_deserialize ::
    "ServiceEntry \<Rightarrow> byte list \<Rightarrow> nat \<Rightarrow> bool \<times> ServiceEntry \<times> nat" where
  "ServiceEntry_deserialize this data offset =
     (case SdEntry_deserialize this data offset of
        (ok, this1, offset1) \<Rightarrow>
          if \<not> ok then (False, this1, offset1)
          else if offset1 + 9 > length data then (False, this1, offset1)
          else (True,
                this1\<lparr>se_service_id := read_be16 data offset1,
                      se_instance_id := read_be16 data (offset1 + 2),
                      se_major_version := data ! (offset1 + 4),
                      ttl := read_be32 data (offset1 + 5)\<rparr>,
                offset1 + 9))"

definition EventGroupEntry_deserialize ::
    "EventGroupEntry \<Rightarrow> byte list \<Rightarrow> nat \<Rightarrow> bool \<times> EventGroupEntry \<times> nat" where
  "EventGroupEntry_deserialize this data offset =
     (case SdEntry_deserialize this data offset of
        (ok, this1, offset1) \<Rightarrow>
          if \<not> ok then (False, this1, offset1)
          else if offset1 + 11 > length data then (False, this1, offset1)
          else (True,
                this1\<lparr>eg_service_id := read_be16 data offset1,
                      eg_instance_id := read_be16 data (offset1 + 2),
                      eg_major_version := data ! (offset1 + 4),
                      ttl := read_be32 data (offset1 + 5),
                      eventgroup_id := read_be16 data (offset1 + 9)\<rparr>,
                offset1 + 11))"

text \<open>The entries vector holds owning pointers to the base class: a sum of the two derived classes.\<close>

datatype SdEntryPtr = ServiceEntryPtr ServiceEntry | EventGroupEntryPtr EventGroupEntry

text \<open>
  \<open>SdMessage::deserialize\<close> reads the header and then treats all of the declared length
  as entries; it never reads \<open>options_\<close>, which is left out of the record.
\<close>

record SdMessage =
  flags :: byte
  reserved :: "32 word"
  entries :: "SdEntryPtr list"

definition SdMessage_default :: SdMessage where
  "SdMessage_default = \<lparr>flags = 0, reserved = 0, entries = []\<rparr>"

text \<open>The update of the remaining length after an entry was parsed ending at \<open>offset\<close>.\<close>

definition remaining_after :: "32 word \<Rightarrow> nat \<Rightarrow> nat" where
  "remaining_after len offset =
     (if offset \<ge> 8 then
        let parsed_length = offset - 8 in
        if parsed_length \<le> unat len then unat len - parsed_length else 0
      else 0)"

function sd_entries_loop ::
    "byte list \<Rightarrow> 32 word \<Rightarrow> nat \<Rightarrow> nat \<Rightarrow> SdEntryPtr list \<Rightarrow> bool \<times> SdEntryPtr list" where
  "sd_entries_loop data len entries_options_length offset es =
     (if entries_options_length > 0 then
        if offset + 1 > length data then (False, es)
        else
          let raw_type = data ! offset in
          if raw_type = 0x00 \<or> raw_type = 0x01 then
            (case ServiceEntry_deserialize ServiceEntry_default data offset of
               (ok, entry, offset') \<Rightarrow>
                 if ok then
                   sd_entries_loop data len (remaining_after len offset') offset'
                     (es @ [ServiceEntryPtr entry])
                 else (False, es))
          else if raw_type = 0x06 \<or> raw_type = 0x07 then
            (case EventGroupEntry_deserialize EventGroupEntry_default data offset of
               (ok, entry, offset') \<Rightarrow>
                 if ok then
                   sd_entries_loop data len (remaining_after len offset') offset'
                     (es @ [EventGroupEntryPtr entry])
                 else (False, es))
          else
            sd_entries_loop data len
              (if entries_options_length > 0 then entries_options_length - 1
               else entries_options_length)
              (offset + 1) es
      else (True, es))"
  by pat_completeness auto
termination
proof (relation "measure (\<lambda>(data, len, eol, offset, es). length data - offset)")
  show "wf (measure (\<lambda>(data, len, eol, offset, es). length data - offset))"
    by simp
qed (auto simp: ServiceEntry_deserialize_def EventGroupEntry_deserialize_def
    SdEntry_deserialize_def split: if_splits)

definition SdMessage_deserialize :: "SdMessage \<Rightarrow> byte list \<Rightarrow> bool \<times> SdMessage" where
  "SdMessage_deserialize this data =
     (if length data < 8 then (False, this)
      else
        let this1 = this\<lparr>flags := data ! 0,
                         reserved := push_bit 16 (ucast (data ! 1)) OR
                                     push_bit 8 (ucast (data ! 2)) OR ucast (data ! 3)\<rparr>;
            len = read_be32 data 4
        in if 8 + unat len > length data then (False, this1)
           else
             (case sd_entries_loop data len (unat len) 8 (entries this1) of
                (ok, es) \<Rightarrow> (ok, this1\<lparr>entries := es\<rparr>)))"

text \<open>\<open>add_entry\<close> pushes the entry at the back of the entries vector.\<close>

definition add_entry :: "SdMessage \<Rightarrow> SdEntryPtr \<Rightarrow> SdMessage" where
  "add_entry this entry = this\<lparr>entries := entries this @ [entry]\<rparr>"

text \<open>The virtual call \<open>entry->serialize()\<close> dispatches on the derived class.\<close>

definition SdEntryPtr_serialize :: "SdEntryPtr \<Rightarrow> byte list" where
  "SdEntryPtr_serialize entry =
     (case entry of
        ServiceEntryPtr e \<Rightarrow> ServiceEntry_serialize e
      | EventGroupEntryPtr e \<Rightarrow> EventGroupEntry_serialize e)"

text \<open>
  \<open>SdMessage::serialize\<close> writes the flags, three bytes of \<open>reserved_\<close>, four placeholder
  bytes, every entry, and then the length of what follows the 8 header bytes into the
  placeholder. Its loop over \<open>options_\<close> appends nothing for a message to which no option
  was added, which are the messages of this record.
\<close>

definition SdMessage_serialize :: "SdMessage \<Rightarrow> byte list" where
  "SdMessage_serialize this =
     (let data =
            [flags this, ucast (drop_bit 16 (reserved this) AND 0xFF),
             ucast (drop_bit 8 (reserved this) AND 0xFF), ucast (reserved this AND 0xFF),
             0, 0, 0, 0]
            @ concat (map SdEntryPtr_serialize (entries this));
          total_length = (of_nat (length data - 8) :: 32 word)
      in data[4 := ucast (drop_bit 24 total_length AND 0xFF),
              5 := ucast (drop_bit 16 total_length AND 0xFF),
              6 := ucast (drop_bit 8 total_length AND 0xFF),
              7 := ucast (total_length AND 0xFF)])"

text \<open>
  The \<open>FIND_SERVICE\<close> entry that \<open>SdClient::find_service\<close> (sd/sd_client.cpp) builds for
  service 0x1234: any instance, any major version, ttl 3; and the SD message it sends,
  a fresh message with this one entry and no option.
\<close>

definition find_service_1234 :: ServiceEntry where
  "find_service_1234 =
     \<lparr>entry_type = 0x00, index1 = 0, index2 = 0, ttl = 3, se_service_id = 0x1234,
      se_instance_id = 0xFFFF, se_major_version = 0xFF, se_minor_version = 0\<rparr>"

definition find_service_message :: SdMessage where
  "find_service_message = add_entry SdMessage_default (ServiceEntryPtr find_service_1234)"

text \<open>
  An SD payload of 44 bytes: the 8-byte header declaring 32 bytes of entries, a 16-byte
  entry of the unknown type 0x02, a 16-byte \<open>SUBSCRIBE_EVENTGROUP\<close> entry in the layout
  \<open>EventGroupEntry::deserialize\<close> reads (service 0x1234, instance 1, major version 1,
  ttl 3, event group 0x1234), and an empty options array.
\<close>

definition sd_payload_unknown_entry :: "byte list" where
  "sd_payload_unknown_entry =
     [0x00, 0x00, 0x00, 0x00, 0x00, 0x00, 0x00, 0x20,
      0x02, 0x00, 0x00, 0x00, 0x12, 0x34, 0x00, 0x01,
      0x01, 0x00, 0x00, 0x03, 0x00, 0x00, 0x00, 0x00,
      0x06, 0x00, 0x00, 0x00, 0x00, 0x12, 0x34, 0x00,
      0x01, 0x01, 0x00, 0x00, 0x00, 0x03, 0x12, 0x34,
      0x00, 0x00, 0x00, 0x00]"

section \<open>Transport protocol: types (tp/tp_types.h)\<close>

text \<open>Four enumerators of \<open>TpResult\<close> share their names with \<open>Result\<close> and carry a suffix.\<close>

datatype TpResult =
    SUCCESS_TP | MESSAGE_TOO_LARGE | SEGMENTATION_FAILED | REASSEMBLY_TIMEOUT | INVALID_SEGMENT
  | SEQUENCE_ERROR | NETWORK_ERROR_TP | RESOURCE_EXHAUSTED_TP | TIMEOUT_TP

datatype TpMessageType = FIRST_SEGMENT | CONSECUTIVE_SEGMENT | LAST_SEGMENT | SINGLE_MESSAGE

text \<open>The two timeouts are durations in milliseconds.\<close>

record TpConfig =
  max_segment_size :: "32 word"
  max_message_size :: "32 word"
  max_retries :: "8 word"
  retry_timeout :: nat
  reassembly_timeout :: nat
  max_concurrent_transfers :: "32 word"
  enable_acknowledgments :: bool

definition TpConfig_default :: TpConfig where
  "TpConfig_default =
     \<lparr>max_segment_size = 1400, max_message_size = 1000000, max_retries = 3,
      retry_timeout = 500, reassembly_timeout = 5000, max_concurrent_transfers = 10,
      enable_acknowledgments = True\<rparr>"

record TpSegmentHeader =
  message_length :: "32 word"
  segment_offset :: "16 word"
  segment_length :: "16 word"
  sequence_number :: "8 word"
  tp_message_type :: TpMessageType

text \<open>
  A segment's timestamp and retransmit counter are bookkeeping that neither the
  segmenter nor the reassembler reads; they are left out.
\<close>

record TpSegment =
  header :: TpSegmentHeader
  seg_payload :: "byte list"

section \<open>Transport protocol: segmenter (tp/tp_segmenter.cpp)\<close>

record TpSegmenter =
  seg_config :: TpConfig
  next_sequence_number :: "8 word"

definition TpSegmenter_init :: "TpConfig \<Rightarrow> TpSegmenter" where
  "TpSegmenter_init cfg = \<lparr>seg_config = cfg, next_sequence_number = 0\<rparr>"

text \<open>
  The loop of \<open>create_multi_segments\<close>. Its counter \<open>payload_offset\<close> is a \<open>uint16_t\<close>
  compared with the \<open>uint32_t\<close> total length, so the loop need not end: not returning is
  the value \<open>None\<close>.
\<close>

partial_function (option) segment_loop ::
    "TpConfig \<Rightarrow> byte list \<Rightarrow> 32 word \<Rightarrow> 8 word \<Rightarrow> 16 word \<Rightarrow> TpSegment list
      \<Rightarrow> TpSegment list option" where
  "segment_loop cfg payload' total_length seqn payload_offset segments =
     (if ucast payload_offset < total_length then
        let remaining_bytes = total_length - ucast payload_offset;
            mt = (if remaining_bytes \<le> max_segment_size cfg then LAST_SEGMENT
                  else CONSECUTIVE_SEGMENT);
            payload_size = (ucast (min (max_segment_size cfg) remaining_bytes) :: 16 word);
            segment =
              \<lparr>header =
                 \<lparr>message_length = total_length, segment_offset = payload_offset,
                  segment_length = payload_size, sequence_number = seqn,
                  tp_message_type = mt\<rparr>,
               seg_payload = take (unat payload_size) (drop (unat payload_offset) payload')\<rparr>
        in segment_loop cfg payload' total_length seqn (payload_offset + payload_size)
             (segments @ [segment])
      else Some segments)"

declare segment_loop.simps [code]

text \<open>
  \<open>create_multi_segments\<close> takes the sequence number, builds the first segment from the
  16 header bytes of the serialized message and the first part of the payload, runs
  the loop, and increments the counter a second time.
\<close>

definition create_multi_segments ::
    "TpSegmenter \<Rightarrow> Message \<Rightarrow> byte list \<Rightarrow> TpSegment list
      \<Rightarrow> (TpResult \<times> TpSegment list \<times> TpSegmenter) option" where
  "create_multi_segments s message payload' segments =
     (let cfg = seg_config s;
          total_length = (of_nat (length payload') :: 32 word);
          seqn = next_sequence_number s;
          s1 = s\<lparr>next_sequence_number := next_sequence_number s + 1\<rparr>;
          hdr = take 16 (Message_serialize message);
          first_payload_size = min (unat (max_segment_size cfg - 16)) (unat total_length);
          hdr' = hdr @ take first_payload_size payload';
          segment =
            \<lparr>header =
               \<lparr>message_length = total_length, segment_offset = 0,
                segment_length = of_nat (length hdr'), sequence_number = seqn,
                tp_message_type = FIRST_SEGMENT\<rparr>,
             seg_payload = hdr'\<rparr>;
          payload_offset = (of_nat first_payload_size :: 16 word)
      in case segment_loop cfg payload' total_length seqn payload_offset (segments @ [segment]) of
           None \<Rightarrow> None
         | Some segs \<Rightarrow>
             Some (SUCCESS_TP, segs,
                   s1\<lparr>next_sequence_number := next_sequence_number s1 + 1\<rparr>))"

text \<open>\<open>segment_message\<close> appends to the caller's vector and returns the result code.\<close>

definition segment_message ::
    "TpSegmenter \<Rightarrow> Message \<Rightarrow> TpSegment list
      \<Rightarrow> (TpResult \<times> TpSegment list \<times> TpSegmenter) option" where
  "segment_message s message segments =
     (let payload' = payload message; cfg = seg_config s in
      if length payload' > unat (max_message_size cfg) then Some (MESSAGE_TOO_LARGE, segments, s)
      else if length payload' \<le> unat (max_segment_size cfg) then
        let message_data = Message_serialize message;
            segment =
              \<lparr>header =
                 \<lparr>message_length = of_nat (length payload'), segment_offset = 0,
                  segment_length = of_nat (length message_data),
                  sequence_number = next_sequence_number s,
                  tp_message_type = SINGLE_MESSAGE\<rparr>,
               seg_payload = message_data\<rparr>
        in Some (SUCCESS_TP, segments @ [segment],
                 s\<lparr>next_sequence_number := next_sequence_number s + 1\<rparr>)
      else create_multi_segments s message payload' segments)"

text \<open>\<open>TpManager::needs_segmentation\<close> (tp/tp_manager.cpp) decides on the serialized size.\<close>

definition needs_segmentation :: "TpConfig \<Rightarrow> Message \<Rightarrow> bool" where
  "needs_segmentation cfg message =
     (length (Message_serialize message) > unat (max_segment_size cfg))"

section \<open>Transport protocol: reassembler (tp/tp_reassembler.cpp)\<close>

text \<open>The start time of a buffer is read from the clock and only serves the timeouts; it is left out.\<close>

record TpReassemblyBuffer =
  rb_message_id :: "32 word"
  total_length :: "32 word"
  received_data :: "byte list"
  received_segments :: "bool list"
  last_sequence_number :: "8 word"
  complete :: bool

definition TpReassemblyBuffer_init :: "32 word \<Rightarrow> 32 word \<Rightarrow> TpReassemblyBuffer" where
  "TpReassemblyBuffer_init msg_id len =
     \<lparr>rb_message_id = msg_id, total_length = len, received_data = replicate (unat len) 0,
      received_segments = [], last_sequence_number = 0, complete = False\<rparr>"

definition is_segment_received :: "TpReassemblyBuffer \<Rightarrow> 16 word \<Rightarrow> 16 word \<Rightarrow> bool" where
  "is_segment_received b offset len =
     list_all (\<lambda>i. unat offset + i < length (received_segments b) \<and>
                   received_segments b ! (unat offset + i)) [0..<unat len]"

definition mark_segment_received ::
    "TpReassemblyBuffer \<Rightarrow> 16 word \<Rightarrow> 16 word \<Rightarrow> TpReassemblyBuffer" where
  "mark_segment_received b offset len =
     (let segs =
            (if length (received_segments b) < unat (total_length b)
             then received_segments b @
                  replicate (unat (total_length b) - length (received_segments b)) False
             else received_segments b)
      in b\<lparr>received_segments :=
             fold (\<lambda>i segs. if unat offset + i < length segs then segs[unat offset + i := True]
                            else segs)
               [0..<unat len] segs\<rparr>)"

definition is_complete :: "TpReassemblyBuffer \<Rightarrow> bool" where
  "is_complete b = (if complete b then True else list_all (\<lambda>received. received) (received_segments b))"

definition get_complete_message :: "TpReassemblyBuffer \<Rightarrow> byte list" where
  "get_complete_message b = (if \<not> is_complete b then [] else received_data b)"

text \<open>
  \<open>std::copy\<close> of a byte range into the buffer from a position on, one element after the
  other. The bounds check of \<open>add_segment_to_buffer\<close> keeps every write inside the buffer
  (whose size is its total length); \<open>list_update\<close> ignores a write outside.
\<close>

fun std_copy :: "byte list \<Rightarrow> nat \<Rightarrow> byte list \<Rightarrow> byte list" where
  "std_copy [] pos dst = dst"
| "std_copy (x # xs) pos dst = std_copy xs (Suc pos) (dst[pos := x])"

definition add_segment_to_buffer ::
    "TpReassemblyBuffer \<Rightarrow> TpSegment \<Rightarrow> bool \<times> TpReassemblyBuffer" where
  "add_segment_to_buffer b segment =
     (let h = header segment in
      if is_segment_received b (segment_offset h) (segment_length h) then (True, b)
      else if unat (segment_offset h) + unat (segment_length h) > unat (total_length b)
        then (False, b)
      else
        let header_size = 16;
            (bytes_received, data) =
              (if tp_message_type h = FIRST_SEGMENT then
                 if length (seg_payload segment) > header_size then
                   (length (seg_payload segment) - header_size,
                    std_copy (drop header_size (seg_payload segment))
                      (unat (segment_offset h)) (received_data b))
                 else (0, received_data b)
               else if tp_message_type h = SINGLE_MESSAGE then
                 if length (seg_payload segment) > header_size then
                   (length (seg_payload segment) - header_size,
                    std_copy (drop header_size (seg_payload segment)) 0 (received_data b))
                 else (0, received_data b)
               else
                 (length (seg_payload segment),
                  std_copy (seg_payload segment) (unat (segment_offset h)) (received_data b)));
            b1 = mark_segment_received (b\<lparr>received_data := data\<rparr>) (segment_offset h)
                   (of_nat bytes_received)
        in (True, b1\<lparr>last_sequence_number := sequence_number h\<rparr>))"

text \<open>
  The reassembler owns its configuration and the map from sequence number to buffer.
  A pointer to a buffer of the map is the key it is stored under, together with the
  buffer read through it; writing through the pointer updates the map at that key.
\<close>

record TpReassembler =
  re_config :: TpConfig
  reassembly_buffers :: "32 word \<rightharpoonup> TpReassemblyBuffer"

definition TpReassembler_init :: "TpConfig \<Rightarrow> TpReassembler" where
  "TpReassembler_init cfg = \<lparr>re_config = cfg, reassembly_buffers = Map.empty\<rparr>"

definition get_active_reassemblies :: "TpReassembler \<Rightarrow> nat" where
  "get_active_reassemblies r = card (dom (reassembly_buffers r))"

definition validate_segment :: "TpConfig \<Rightarrow> TpSegment \<Rightarrow> bool" where
  "validate_segment cfg segment =
     (let h = header segment in
      if unat (segment_length h) \<noteq> length (seg_payload segment) then False
      else if message_length h > max_message_size cfg then False
      else if unat (segment_offset h) + unat (segment_length h) > unat (message_length h)
        then False
      else True)"

definition find_or_create_buffer ::
    "TpReassembler \<Rightarrow> TpSegment \<Rightarrow> (32 word \<times> TpReassemblyBuffer) option \<times> TpReassembler" where
  "find_or_create_buffer r segment =
     (let h = header segment; key = (ucast (sequence_number h) :: 32 word) in
      case reassembly_buffers r key of
        None \<Rightarrow>
          if tp_message_type h = FIRST_SEGMENT \<or> tp_message_type h = SINGLE_MESSAGE then
            let b = TpReassemblyBuffer_init key (message_length h)
            in (Some (key, b), r\<lparr>reassembly_buffers := (reassembly_buffers r)(key \<mapsto> b)\<rparr>)
          else (None, r)
      | Some b \<Rightarrow> (Some (key, b), r))"

text \<open>
  \<open>process_segment\<close> returns a bool and assigns the caller's \<open>complete_message\<close> only on
  completion: the model takes the caller's vector and returns it with the result and
  the reassembler.
\<close>

definition process_segment ::
    "TpReassembler \<Rightarrow> TpSegment \<Rightarrow> byte list \<Rightarrow> bool \<times> byte list \<times> TpReassembler" where
  "process_segment r segment complete_message =
     (if \<not> validate_segment (re_config r) segment then (False, complete_message, r)
      else
        case find_or_create_buffer r segment of
          (None, r1) \<Rightarrow> (False, complete_message, r1)
        | (Some (key, b), r1) \<Rightarrow>
            (case add_segment_to_buffer b segment of
               (added, b1) \<Rightarrow>
                 let r2 = r1\<lparr>reassembly_buffers := (reassembly_buffers r1)(key \<mapsto> b1)\<rparr> in
                 if added \<and> is_complete b1 then
                   let b2 = b1\<lparr>complete := True\<rparr>;
                       r3 = r2\<lparr>reassembly_buffers := (reassembly_buffers r2)(key \<mapsto> b2)\<rparr>
                   in (True, get_complete_message b2,
                       r3\<lparr>reassembly_buffers :=
                            (reassembly_buffers r3)(rb_message_id b2 := None)\<rparr>)
                 else (True, complete_message, r2)))"

text \<open>Feeding a list of segments one by one, keeping each call's result.\<close>

fun process_segments ::
    "TpReassembler \<Rightarrow> TpSegment list \<Rightarrow> byte list \<Rightarrow> bool list \<times> byte list \<times> TpReassembler" where
  "process_segments r [] complete_message = ([], complete_message, r)"
| "process_segments r (segment # rest) complete_message =
     (case process_segment r segment complete_message of
        (ok, cm, r1) \<Rightarrow>
          (case process_segments r1 rest cm of (oks, cm', r') \<Rightarrow> (ok # oks, cm', r')))"

section \<open>Notions used to state how a message is split and how a buffer fills\<close>

text \<open>A segment's offset and length fields, read as numbers.\<close>

definition seg_off :: "TpSegment \<Rightarrow> nat" where
  "seg_off g = unat (segment_offset (header g))"

definition seg_len :: "TpSegment \<Rightarrow> nat" where
  "seg_len g = unat (segment_length (header g))"

text \<open>
  \<open>tiles P M sq off gs\<close>: the segments \<open>gs\<close> carry the payload \<open>P\<close> from offset \<open>off\<close> to
  its end without gap or overlap. Each segment declares the total length \<open>|P|\<close> and the
  sequence number \<open>sq\<close>, sits at the offset where its predecessor ended, and carries
  between 1 and \<open>M\<close> of the payload's bytes; every segment but the last one is a
  \<open>CONSECUTIVE_SEGMENT\<close> with exactly \<open>M\<close> bytes, the last one is the \<open>LAST_SEGMENT\<close>.
\<close>

fun tiles :: "byte list \<Rightarrow> nat \<Rightarrow> 8 word \<Rightarrow> nat \<Rightarrow> TpSegment list \<Rightarrow> bool" where
  "tiles P M sq off [] = (off = length P)"
| "tiles P M sq off (g # gs) =
     (message_length (header g) = of_nat (length P) \<and>
      seg_off g = off \<and>
      sequence_number (header g) = sq \<and>
      seg_payload g = take (seg_len g) (drop off P) \<and>
      1 \<le> seg_len g \<and> seg_len g \<le> M \<and> off + seg_len g \<le> length P \<and>
      tp_message_type (header g) = (if gs = [] then LAST_SEGMENT else CONSECUTIVE_SEGMENT) \<and>
      (gs \<noteq> [] \<longrightarrow> seg_len g = M) \<and>
      tiles P M sq (off + seg_len g) gs)"

text \<open>
  The \<open>FIRST_SEGMENT\<close> of a split message: the 16 header bytes \<open>hdr\<close> followed by the
  first \<open>M - 16\<close> bytes of the payload, at offset 0, declaring the total length \<open>|P|\<close>.
\<close>

definition first_segment :: "byte list \<Rightarrow> byte list \<Rightarrow> nat \<Rightarrow> 8 word \<Rightarrow> TpSegment" where
  "first_segment hdr P M sq =
     \<lparr>header = \<lparr>message_length = of_nat (length P), segment_offset = 0,
                 segment_length = of_nat M, sequence_number = sq,
                 tp_message_type = FIRST_SEGMENT\<rparr>,
      seg_payload = hdr @ take (M - 16) P\<rparr>"

text \<open>The byte positions of the reassembled payload that a segment declares.\<close>

definition covers :: "TpSegment \<Rightarrow> nat \<Rightarrow> bool" where
  "covers g i \<longleftrightarrow> seg_off g \<le> i \<and> i < seg_off g + seg_len g"

text \<open>
  \<open>buffer_holds P F key S b\<close>: the buffer \<open>b\<close>, stored under \<open>key\<close>, is what the
  reassembler holds once the first segment (carrying the first \<open>F\<close> payload bytes) and
  the segments in \<open>S\<close> have been added: it is sized to \<open>|P|\<close>, a position is marked
  exactly when it lies below \<open>F\<close> or one of the segments in \<open>S\<close> covers it, and every
  marked position holds the byte of \<open>P\<close>.
\<close>

definition buffer_holds ::
    "byte list \<Rightarrow> nat \<Rightarrow> 32 word \<Rightarrow> TpSegment set \<Rightarrow> TpReassemblyBuffer \<Rightarrow> bool" where
  "buffer_holds P F key S b \<longleftrightarrow>
     rb_message_id b = key \<and> total_length b = of_nat (length P) \<and>
     length (received_data b) = length P \<and> length (received_segments b) = length P \<and>
     \<not> complete b \<and>
     (\<forall>i<length P. received_segments b ! i \<longleftrightarrow> (i < F \<or> (\<exists>g\<in>S. covers g i))) \<and>
     (\<forall>i<length P. received_segments b ! i \<longrightarrow> received_data b ! i = P ! i)"

text \<open>The marking loop of \<open>mark_segment_received\<close> on its own.\<close>

definition mark_from :: "nat \<Rightarrow> nat \<Rightarrow> bool list \<Rightarrow> bool list" where
  "mark_from off n segs =
     fold (\<lambda>i segs. if off + i < length segs then segs[off + i := True] else segs) [0..<n] segs"

text \<open>The map key a segment is filed under: its sequence number, widened.\<close>

definition seg_key :: "TpSegment \<Rightarrow> 32 word" where
  "seg_key f = ucast (sequence_number (header f))"

section \<open>Concrete transport-protocol inputs\<close>

text \<open>
  A segmenter and reassembler configuration with segments of at most 100 bytes, and a
  request with a payload of 350 bytes 0x55.
\<close>

definition tp_config_100 :: TpConfig where
  "tp_config_100 = TpConfig_default\<lparr>max_segment_size := 100\<rparr>"

definition message_350 :: Message where
  "message_350 =
     Message_make \<lparr>service_id = 0x1234, method_id = 0x5678\<rparr>
       \<lparr>client_id = 0xABCD, session_id = 0x0001\<rparr> 0x00 0x00 (replicate 350 0x55)"

text \<open>The 16 header bytes of that message: its length field is 358 = 0x166.\<close>

definition message_350_header :: "byte list" where
  "message_350_header =
     [0x12, 0x34, 0x56, 0x78, 0x00, 0x00, 0x01, 0x66, 0xAB, 0xCD, 0x00, 0x01, 0x01, 0x01,
      0x00, 0x00]"

text \<open>The four segments the segmenter makes of it, carrying 84, 100, 100 and 66 payload bytes.\<close>

definition s3_first :: TpSegment where
  "s3_first =
     \<lparr>header = \<lparr>message_length = 350, segment_offset = 0, segment_length = 100,
                 sequence_number = 0, tp_message_type = FIRST_SEGMENT\<rparr>,
      seg_payload = message_350_header @ replicate 84 0x55\<rparr>"

definition s3_consecutive_1 :: TpSegment where
  "s3_consecutive_1 =
     \<lparr>header = \<lparr>message_length = 350, segment_offset = 84, segment_length = 100,
                 sequence_number = 0, tp_message_type = CONSECUTIVE_SEGMENT\<rparr>,
      seg_payload = replicate 100 0x55\<rparr>"

definition s3_consecutive_2 :: TpSegment where
  "s3_consecutive_2 =
     \<lparr>header = \<lparr>message_length = 350, segment_offset = 184, segment_length = 100,
                 sequence_number = 0, tp_message_type = CONSECUTIVE_SEGMENT\<rparr>,
      seg_payload = replicate 100 0x55\<rparr>"

definition s3_last :: TpSegment where
  "s3_last =
     \<lparr>header = \<lparr>message_length = 350, segment_offset = 284, segment_length = 66,
                 sequence_number = 0, tp_message_type = LAST_SEGMENT\<rparr>,
      seg_payload = replicate 66 0x55\<rparr>"

text \<open>
  A first segment of 500 bytes for a message of 1000 bytes, as the repository's timeout
  test builds it, for any sequence number; and the reassembler, in its default
  configuration, after the first segments of the sequence numbers 0 to 9 were fed to it.
\<close>

definition first_only :: "8 word \<Rightarrow> TpSegment" where
  "first_only sq =
     \<lparr>header = \<lparr>message_length = 1000, segment_offset = 0, segment_length = 500,
                 sequence_number = sq, tp_message_type = FIRST_SEGMENT\<rparr>,
      seg_payload = replicate 500 0x11\<rparr>"

definition ten_transfers :: TpReassembler where
  "ten_transfers =
     snd (snd (process_segments (TpReassembler_init TpConfig_default)
                 (map first_only [0, 1, 2, 3, 4, 5, 6, 7, 8, 9]) []))"

text \<open>
  A request with a payload of 90 bytes, whose serialized size is 106, and one with a
  payload of 65536 bytes.
\<close>

definition message_90 :: Message where
  "message_90 =
     Message_make \<lparr>service_id = 0x1234, method_id = 0x5678\<rparr>
       \<lparr>client_id = 0xABCD, session_id = 0x0001\<rparr> 0x00 0x00 (replicate 90 0x55)"

definition message_64k :: Message where
  "message_64k =
     Message_make \<lparr>service_id = 0x1234, method_id = 0x5678\<rparr>
       \<lparr>client_id = 0xABCD, session_id = 0x0001\<rparr> 0x00 0x00 (replicate 65536 0x55)"


section \<open>Verification: message codec\<close>

lemma be32_bits:
  fixes v :: "32 word"
  shows "push_bit 24 (ucast (ucast (drop_bit 24 v) :: byte)) OR
         push_bit 16 (ucast (ucast (drop_bit 16 v) :: byte)) OR
         push_bit 8 (ucast (ucast (drop_bit 8 v) :: byte)) OR ucast (ucast v :: byte) = v"
proof (rule bit_word_eqI)
  fix n :: nat
  assume "n < LENGTH(32)"
  then have n: "n < 32" by simp
  consider "n < 8" | "8 \<le> n" "n < 16" | "16 \<le> n" "n < 24" | "24 \<le> n"
    by linarith
  then show "bit (push_bit 24 (ucast (ucast (drop_bit 24 v) :: byte)) OR
         push_bit 16 (ucast (ucast (drop_bit 16 v) :: byte)) OR
         push_bit 8 (ucast (ucast (drop_bit 8 v) :: byte)) OR
         ucast (ucast v :: byte) :: 32 word) n = bit v n"
    using n by cases (auto simp: bit_simps)
qed

lemma split16_hi:
  "ucast (drop_bit 16 (push_bit 16 (ucast s) OR ucast m :: 32 word)) = s"
  for s m :: "16 word"
  by (rule bit_word_eqI) (auto simp: bit_simps dest: bit_imp_le_length)

lemma split16_lo:
  "ucast ((push_bit 16 (ucast s) OR ucast m :: 32 word) AND 0xFFFF) = m"
  for s m :: "16 word"
proof -
  have "(0xFFFF :: 32 word) = mask 16" by (simp add: mask_eq_exp_minus_1)
  then have "ucast ((push_bit 16 (ucast s) OR ucast m :: 32 word) AND 0xFFFF) =
     (ucast ((push_bit 16 (ucast s) OR ucast m :: 32 word) AND mask 16) :: 16 word)"
    by simp
  also have "\<dots> = m"
    by (rule bit_word_eqI) (auto simp: bit_simps)
  finally show ?thesis .
qed

lemma MessageId_roundtrip: "MessageId_from_uint32 (MessageId_to_uint32 i) = i"
  unfolding MessageId_from_uint32_def MessageId_to_uint32_def
  by (simp only: split16_hi split16_lo) simp

lemma RequestId_roundtrip: "RequestId_from_uint32 (RequestId_to_uint32 i) = i"
  unfolding RequestId_from_uint32_def RequestId_to_uint32_def
  by (simp only: split16_hi split16_lo) simp

lemma unat_of_nat32: "n < 4294967296 \<Longrightarrow> unat (of_nat n :: 32 word) = n"
  by (simp add: unat_of_nat)

lemma unat_of_nat16: "n < 65536 \<Longrightarrow> unat (of_nat n :: 16 word) = n"
  by (simp add: unat_of_nat)

lemma header_reads:
  assumes "data = be32 a @ be32 b @ be32 c @ [p, i, t, r] @ pl"
  shows "read_be32 data 0 = a" "read_be32 data 4 = b" "read_be32 data 8 = c"
    "data ! 12 = p" "data ! 13 = i" "data ! 14 = t" "data ! 15 = r"
    "drop 16 data = pl" "length data = 16 + length pl"
  using assms
  by (simp_all add: read_be32_def be32_def be32_bits)

lemma valid_length:
  assumes "is_valid m"
  shows "\<not> msg_length m < 8" "unat (msg_length m - 8) = length (payload m)"
proof -
  let ?n = "length (payload m)"
  from assms have eq: "8 + msg_length m = of_nat (16 + ?n)" and n: "?n \<le> 65535"
    by (auto simp: is_valid_def has_valid_header_def has_valid_payload_def HEADER_SIZE_def
        MAX_TCP_PAYLOAD_SIZE_def split: if_splits)
  from eq have L: "msg_length m = of_nat (8 + ?n)"
    by (simp add: algebra_simps)
  from n have "unat (of_nat (8 + ?n) :: 32 word) = 8 + ?n"
    by (intro unat_of_nat32) simp
  then have u: "unat (msg_length m) = 8 + ?n" by (simp only: L)
  then show "\<not> msg_length m < 8"
    by (simp add: word_less_nat_alt)
  from L have "msg_length m - 8 = of_nat ?n" by simp
  with n show "unat (msg_length m - 8) = ?n"
    by (simp add: unat_of_nat32)
qed

lemma overwrite_all:
  "this\<lparr>message_id := message_id m, msg_length := msg_length m,
         request_id := request_id m, protocol_version := protocol_version m,
         interface_version := interface_version m,
         message_type := message_type m, return_code := return_code m,
         payload := payload m\<rparr> = (m :: Message)"
  by (cases this, cases m) simp

lemma is_valid_hello_message: "is_valid hello_message"
  by (simp add: hello_message_def Message_make_def set_payload_def update_length_def
      is_valid_def has_valid_header_def has_valid_payload_def
      SOMEIP_PROTOCOL_VERSION_def SOMEIP_INTERFACE_VERSION_def HEADER_SIZE_def
      MessageType_values_def ReturnCode_values_def MAX_TCP_PAYLOAD_SIZE_def)

text \<open>
  Claim C1. For every valid message \<open>m\<close> (what \<open>is_valid\<close> accepts: both versions 1, the
  length field consistent with the payload, message type and return code among the
  enumerators, payload within the size limit), \<open>deserialize\<close> applied to \<open>serialize m\<close>
  succeeds and leaves the receiving object equal to \<open>m\<close> in every header field and in the
  payload, whatever the receiving object held before.
\<close>

theorem serialize_deserialize_roundtrip:
  assumes "is_valid m"
  shows "Message_deserialize this (Message_serialize m) = (True, m)"
proof -
  define data where "data = Message_serialize m"
  note h = header_reads [OF data_def [unfolded Message_serialize_def]]
  note v = valid_length [OF assms]
  have "Message_deserialize this data = (is_valid m, m)"
    unfolding Message_deserialize_def
    by (simp add: h v MIN_MESSAGE_SIZE_def HEADER_SIZE_def MessageId_roundtrip
        RequestId_roundtrip Let_def overwrite_all)
  with assms show ?thesis by (simp add: data_def)
qed

theorem serialize_deserialize_roundtrip_witness:
  "is_valid hello_message \<and>
   Message_deserialize Message_default (Message_serialize hello_message) = (True, hello_message)"
  using is_valid_hello_message
    serialize_deserialize_roundtrip [OF is_valid_hello_message, of Message_default]
  by simp

text \<open>
  Claim C2, as stated, fails: \<open>serialize\<close> is a const member that writes the stored
  \<open>length_\<close>. After \<open>set_length 99\<close> on a message without payload, bytes 4..8 are
  \<open>00 00 00 63\<close>, not the encoding \<open>00 00 00 08\<close> of \<open>8 + |payload|\<close>.
\<close>

theorem serialize_length_not_recomputed:
  "take 4 (drop 4 (Message_serialize (set_length 99 Message_default))) = [0, 0, 0, 99] \<and>
   be32 (of_nat (8 + length (payload (set_length 99 Message_default)))) = [0, 0, 0, 8]"
  by (simp add: Message_serialize_def set_length_def Message_default_def be32_def)

text \<open>
  Claim C2, amended. For every message, bytes 4..8 of \<open>serialize\<close> are the big-endian
  encoding of the length field as it is stored; the stored field is \<open>8 + |payload|\<close>
  (narrowed to 32 bits) after \<open>set_payload\<close>, which is where the length is recomputed.
\<close>

theorem serialize_writes_stored_length:
  "take 4 (drop 4 (Message_serialize m)) = be32 (msg_length m) \<and>
   take 4 (drop 4 (Message_serialize (set_payload p m))) = be32 (of_nat (8 + length p))"
  by (simp add: Message_serialize_def be32_def set_payload_def update_length_def)

text \<open>
  Claim C9, as stated, fails: \<open>MAX_TCP_PAYLOAD_SIZE\<close> is 65535, so a message with a valid
  header and a payload of 65528 bytes is valid.
\<close>

theorem is_valid_payload_65528:
  "has_valid_header (set_payload (replicate 65528 0) Message_default) \<and>
   length (payload (set_payload (replicate 65528 0) Message_default)) = 65528 \<and>
   is_valid (set_payload (replicate 65528 0) Message_default)"
  by (simp add: set_payload_def update_length_def Message_default_def is_valid_def
      has_valid_header_def has_valid_payload_def SOMEIP_PROTOCOL_VERSION_def
      SOMEIP_INTERFACE_VERSION_def HEADER_SIZE_def MessageType_values_def
      ReturnCode_values_def MAX_TCP_PAYLOAD_SIZE_def)

text \<open>
  Claim C9, amended. For every message whose header-level checks hold, \<open>is_valid\<close>
  returns true if and only if the payload has at most 65535 bytes.
\<close>

theorem is_valid_iff_payload_le_65535:
  "has_valid_header m \<Longrightarrow> is_valid m \<longleftrightarrow> length (payload m) \<le> 65535"
  by (simp add: is_valid_def has_valid_payload_def MAX_TCP_PAYLOAD_SIZE_def)

theorem is_valid_iff_payload_le_65535_witness:
  "has_valid_header hello_message \<and>
   (is_valid hello_message \<longleftrightarrow> length (payload hello_message) \<le> 65535)"
proof -
  have h: "has_valid_header hello_message"
    using is_valid_hello_message by (simp add: is_valid_def)
  from h is_valid_iff_payload_le_65535 [OF h] show ?thesis by simp
qed

section \<open>Verification: the reader's cursor on failure\<close>

text \<open>
  Claim C10, as stated, fails for \<open>deserialize_string\<close>: it reads the 4-byte length
  prefix through \<open>deserialize_uint32\<close>, which advances the cursor, before it finds that
  the body is too short. On the five bytes \<open>00 00 00 05 41\<close> it fails with
  \<open>MALFORMED_MESSAGE\<close> and leaves the cursor at 4, not at 0.
\<close>

theorem deserialize_string_short_body_moves_cursor:
  "fst (deserialize_string (Deserializer_init [0, 0, 0, 5, 0x41])) = Inl MALFORMED_MESSAGE \<and>
   position (Deserializer_init [0, 0, 0, 5, 0x41]) = 0 \<and>
   position (snd (deserialize_string (Deserializer_init [0, 0, 0, 5, 0x41]))) = 4"
  by (simp add: deserialize_string_def deserialize_uint32_def read_be_uint32_def
      Deserializer_init_def read_be32_def)

text \<open>
  Claim C10, amended. For every reader state, each scalar operation (bool, the unsigned
  and signed integers of 8 to 64 bits, float, double) that fails leaves the reader, and
  so its cursor, exactly as it was. \<open>deserialize_string\<close> fails only with
  \<open>MALFORMED_MESSAGE\<close>, never changes the buffer, and leaves the cursor where it was when
  fewer than four bytes remain for the length prefix; when the prefix can be read and
  the body is too short, the cursor stays advanced past the prefix, by 4.
\<close>

theorem deserialize_failure_cursor:
  "(fst (deserialize_bool d) = Inl e \<longrightarrow> snd (deserialize_bool d) = d) \<and>
   (fst (deserialize_uint8 d) = Inl e \<longrightarrow> snd (deserialize_uint8 d) = d) \<and>
   (fst (deserialize_uint16 d) = Inl e \<longrightarrow> snd (deserialize_uint16 d) = d) \<and>
   (fst (deserialize_uint32 d) = Inl e \<longrightarrow> snd (deserialize_uint32 d) = d) \<and>
   (fst (deserialize_uint64 d) = Inl e \<longrightarrow> snd (deserialize_uint64 d) = d) \<and>
   (fst (deserialize_int8 d) = Inl e \<longrightarrow> snd (deserialize_int8 d) = d) \<and>
   (fst (deserialize_int16 d) = Inl e \<longrightarrow> snd (deserialize_int16 d) = d) \<and>
   (fst (deserialize_int32 d) = Inl e \<longrightarrow> snd (deserialize_int32 d) = d) \<and>
   (fst (deserialize_int64 d) = Inl e \<longrightarrow> snd (deserialize_int64 d) = d) \<and>
   (fst (deserialize_float d) = Inl e \<longrightarrow> snd (deserialize_float d) = d) \<and>
   (fst (deserialize_double d) = Inl e \<longrightarrow> snd (deserialize_double d) = d) \<and>
   (fst (deserialize_string d) = Inl e \<longrightarrow>
      e = MALFORMED_MESSAGE \<and> buffer (snd (deserialize_string d)) = buffer d \<and>
      position (snd (deserialize_string d)) =
        (if position d + 4 > length (buffer d) then position d else position d + 4))"
  by (simp add: deserialize_bool_def deserialize_uint8_def deserialize_uint16_def
      deserialize_uint32_def deserialize_uint64_def deserialize_int8_def deserialize_int16_def
      deserialize_int32_def deserialize_int64_def deserialize_float_def deserialize_double_def
      deserialize_string_def read_be_uint16_def read_be_uint32_def read_be_uint64_def
      read_be_float_def read_be_double_def Let_def)

theorem deserialize_failure_cursor_witness:
  "fst (deserialize_bool (Deserializer_init [])) = Inl MALFORMED_MESSAGE \<and>
   snd (deserialize_bool (Deserializer_init [])) = Deserializer_init [] \<and>
   fst (deserialize_uint8 (Deserializer_init [])) = Inl MALFORMED_MESSAGE \<and>
   snd (deserialize_uint8 (Deserializer_init [])) = Deserializer_init [] \<and>
   fst (deserialize_uint16 (Deserializer_init [])) = Inl MALFORMED_MESSAGE \<and>
   snd (deserialize_uint16 (Deserializer_init [])) = Deserializer_init [] \<and>
   fst (deserialize_uint32 (Deserializer_init [])) = Inl MALFORMED_MESSAGE \<and>
   snd (deserialize_uint32 (Deserializer_init [])) = Deserializer_init [] \<and>
   fst (deserialize_uint64 (Deserializer_init [])) = Inl MALFORMED_MESSAGE \<and>
   snd (deserialize_uint64 (Deserializer_init [])) = Deserializer_init [] \<and>
   fst (deserialize_int8 (Deserializer_init [])) = Inl MALFORMED_MESSAGE \<and>
   snd (deserialize_int8 (Deserializer_init [])) = Deserializer_init [] \<and>
   fst (deserialize_int16 (Deserializer_init [])) = Inl MALFORMED_MESSAGE \<and>
   snd (deserialize_int16 (Deserializer_init [])) = Deserializer_init [] \<and>
   fst (deserialize_int32 (Deserializer_init [])) = Inl MALFORMED_MESSAGE \<and>
   snd (deserialize_int32 (Deserializer_init [])) = Deserializer_init [] \<and>
   fst (deserialize_int64 (Deserializer_init [])) = Inl MALFORMED_MESSAGE \<and>
   snd (deserialize_int64 (Deserializer_init [])) = Deserializer_init [] \<and>
   fst (deserialize_float (Deserializer_init [])) = Inl MALFORMED_MESSAGE \<and>
   snd (deserialize_float (Deserializer_init [])) = Deserializer_init [] \<and>
   fst (deserialize_double (Deserializer_init [])) = Inl MALFORMED_MESSAGE \<and>
   snd (deserialize_double (Deserializer_init [])) = Deserializer_init [] \<and>
   fst (deserialize_string (Deserializer_init [])) = Inl MALFORMED_MESSAGE \<and>
   position (snd (deserialize_string (Deserializer_init []))) = 0 \<and>
   fst (deserialize_string (Deserializer_init [0, 0, 0, 5, 0x41])) = Inl MALFORMED_MESSAGE \<and>
   position (snd (deserialize_string (Deserializer_init [0, 0, 0, 5, 0x41]))) = 4"
  using deserialize_failure_cursor [of "Deserializer_init []" MALFORMED_MESSAGE]
    deserialize_failure_cursor [of "Deserializer_init [0, 0, 0, 5, 0x41]" MALFORMED_MESSAGE]
  by (simp add: deserialize_bool_def deserialize_uint8_def deserialize_uint16_def
      deserialize_uint32_def deserialize_uint64_def deserialize_int8_def deserialize_int16_def
      deserialize_int32_def deserialize_int64_def deserialize_float_def deserialize_double_def
      deserialize_string_def read_be_uint16_def read_be_uint32_def read_be_uint64_def
      read_be_float_def read_be_double_def Deserializer_init_def read_be32_def)

section \<open>Verification: service-discovery entries\<close>

text \<open>
  A service entry serializes to the fourteen bytes of the base class, whatever its
  fields: \<open>ServiceEntry::serialize\<close> overwrites five of them and appends nothing. An
  event-group entry appends its two bytes and has sixteen.
\<close>

lemma ServiceEntry_serialize_length: "length (ServiceEntry_serialize e) = 14"
  by (simp add: ServiceEntry_serialize_def SdEntry_serialize_def)

lemma EventGroupEntry_serialize_length: "length (EventGroupEntry_serialize g) = 16"
  by (simp add: EventGroupEntry_serialize_def SdEntry_serialize_def)

text \<open>
  \<open>SdEntry::deserialize\<close> wants sixteen bytes from the offset on. So the code's decoder
  refuses every service entry that the code's encoder produced, and leaves the object
  and the offset as they were; it accepts every serialized event-group entry.
\<close>

lemma ServiceEntry_serialize_refused:
  "ServiceEntry_deserialize this (ServiceEntry_serialize e) 0 = (False, this, 0)"
  by (simp add: ServiceEntry_deserialize_def SdEntry_deserialize_def
      ServiceEntry_serialize_length)

lemma EventGroupEntry_serialize_accepted:
  "fst (EventGroupEntry_deserialize this (EventGroupEntry_serialize g) 0) = True"
  by (simp add: EventGroupEntry_deserialize_def SdEntry_deserialize_def
      EventGroupEntry_serialize_length)

text \<open>
  Claim C4 against the code: the \<open>FIND_SERVICE\<close> entry of \<open>SdClient::find_service\<close>
  serializes to 14 bytes, not 16, although \<open>SdEntry::serialize\<close> reserves 16 bytes under
  the comment that an SD entry is 16 bytes and \<open>SdEntry::deserialize\<close> requires 16. The
  entry decoder refuses these bytes, and so does \<open>SdMessage::deserialize\<close> on the 22
  bytes of the message that carries the entry: the code cannot read the find-service
  message that it sends.
\<close>

theorem find_service_entry_14_bytes_not_decoded:
  "ServiceEntry_serialize find_service_1234 =
     [0, 0, 0, 0, 0x12, 0x34, 0xFF, 0xFF, 0xFF, 0, 0, 0, 0, 3] \<and>
   length (ServiceEntry_serialize find_service_1234) = 14 \<and>
   ServiceEntry_deserialize ServiceEntry_default (ServiceEntry_serialize find_service_1234) 0 =
     (False, ServiceEntry_default, 0) \<and>
   SdMessage_serialize find_service_message =
     [0, 0, 0, 0, 0, 0, 0, 14, 0, 0, 0, 0, 0x12, 0x34, 0xFF, 0xFF, 0xFF, 0, 0, 0, 0, 3] \<and>
   SdMessage_deserialize SdMessage_default (SdMessage_serialize find_service_message) =
     (False, SdMessage_default)"
  by (simp add: ServiceEntry_serialize_def SdEntry_serialize_def find_service_1234_def
      ServiceEntry_deserialize_def SdEntry_deserialize_def SdMessage_serialize_def
      find_service_message_def add_entry_def SdMessage_default_def SdEntryPtr_serialize_def
      SdMessage_deserialize_def read_be32_def)

text \<open>
  An entry byte that is none of 0x00, 0x01, 0x06, 0x07 moves the cursor of the entries
  loop by one byte and reduces the remaining length by one.
\<close>

lemma sd_entries_loop_unknown_type:
  assumes "eol > 0" "offset < length data" "data ! offset \<notin> {0x00, 0x01, 0x06, 0x07}"
  shows "sd_entries_loop data len eol offset es =
         sd_entries_loop data len (eol - 1) (offset + 1) es"
  using assms by (subst sd_entries_loop.simps) simp

text \<open>
  Claim C8 against the code: on \<open>sd_payload_unknown_entry\<close> the decoder neither fails nor
  skips the 16 bytes of the unknown entry. It steps over the type byte 0x02 alone, reads
  the unknown entry's second byte 0x00 as the start of a service entry at offset 9, reads
  the next one at offset 23, and returns true with these two entries. The event-group
  entry that starts at offset 24, and decodes there, is not among the entries.
\<close>

theorem sd_deserialize_unknown_entry_misframes:
  "SdMessage_deserialize SdMessage_default sd_payload_unknown_entry =
     (True,
      \<lparr>flags = 0, reserved = 0,
       entries =
         [ServiceEntryPtr
            \<lparr>entry_type = 0, index1 = 0, index2 = 0, ttl = 0x03000000,
             se_service_id = 0x0001, se_instance_id = 0x0100, se_major_version = 0,
             se_minor_version = 0\<rparr>,
          ServiceEntryPtr
            \<lparr>entry_type = 0, index1 = 6, index2 = 0, ttl = 0x01000000,
             se_service_id = 0x0012, se_instance_id = 0x3400, se_major_version = 1,
             se_minor_version = 0\<rparr>]\<rparr>) \<and>
   EventGroupEntry_deserialize EventGroupEntry_default sd_payload_unknown_entry 24 =
     (True,
      \<lparr>entry_type = 6, index1 = 0, index2 = 0, ttl = 3, eg_service_id = 0x1234,
       eg_instance_id = 1, eventgroup_id = 0x1234, eg_major_version = 1\<rparr>,
      40)"
  by (simp add: SdMessage_deserialize_def SdMessage_default_def sd_payload_unknown_entry_def
      read_be32_def read_be16_def ServiceEntry_deserialize_def EventGroupEntry_deserialize_def
      SdEntry_deserialize_def ServiceEntry_default_def EventGroupEntry_default_def
      remaining_after_def)

section \<open>Verification: segmenter\<close>

lemma unat_lt_16: "unat (x::16 word) < 65536"
  using unsigned_less [where 'a = nat and w = x] by simp

lemma unat_ucast_16_32: "unat (ucast (x::16 word) :: 32 word) = unat x"
  using unat_lt_16 [of x] by (simp add: unsigned_ucast_eq take_bit_nat_eq_self)

lemma ucast_of_nat_16_32: "n < 65536 \<Longrightarrow> (ucast (of_nat n :: 16 word) :: 32 word) = of_nat n"
  using unat_of_nat16 [of n] by (metis of_nat_unat)

lemma unat_min: "unat (min a b) = min (unat a) (unat b)" for a b :: "'a::len word"
  by (simp add: min_def word_le_nat_alt)

text \<open>
  One turn of the loop, and its exit, for a payload of fewer than 65536 bytes, where no
  counter wraps: the offsets and lengths are the numbers one expects.
\<close>

lemma segment_loop_exit:
  assumes "N \<le> off" "off < 65536" "N < 65536"
  shows "segment_loop cfg P (of_nat N) sq (of_nat off) segs = Some segs"
proof -
  have "\<not> (ucast (of_nat off :: 16 word) :: 32 word) < of_nat N"
    using assms by (simp add: ucast_of_nat_16_32 word_less_nat_alt unat_of_nat32)
  then show ?thesis
    by (subst segment_loop.simps) simp
qed

lemma segment_loop_step:
  fixes cfg :: TpConfig and N off :: nat
  assumes "off < N" "N < 65536"
  defines "len \<equiv> min (unat (max_segment_size cfg)) (N - off)"
  shows "segment_loop cfg P (of_nat N) sq (of_nat off) segs =
         segment_loop cfg P (of_nat N) sq (of_nat (off + len))
           (segs @ [\<lparr>header = \<lparr>message_length = of_nat N, segment_offset = of_nat off,
                       segment_length = of_nat len, sequence_number = sq,
                       tp_message_type = (if N - off \<le> unat (max_segment_size cfg) then LAST_SEGMENT
                          else CONSECUTIVE_SEGMENT)\<rparr>,
                     seg_payload = take len (drop off P)\<rparr>])"
proof -
  have off: "off < 65536" using assms by simp
  have uc: "(ucast (of_nat off :: 16 word) :: 32 word) = of_nat off"
    using off by (rule ucast_of_nat_16_32)
  have c: "(of_nat off :: 32 word) < of_nat N"
    using assms by (simp add: word_less_nat_alt unat_of_nat32)
  have rem: "(of_nat N :: 32 word) - of_nat off = of_nat (N - off)"
    using assms by simp
  have urem: "unat (of_nat (N - off) :: 32 word) = N - off"
    using assms by (intro unat_of_nat32) simp
  have le: "(of_nat (N - off) :: 32 word) \<le> max_segment_size cfg \<longleftrightarrow> N - off \<le> unat (max_segment_size cfg)"
    by (simp add: word_le_nat_alt urem)
  have um: "unat (min (max_segment_size cfg) (of_nat (N - off))) = len"
    by (simp add: unat_min urem len_def)
  have ps: "(ucast (min (max_segment_size cfg) (of_nat (N - off) :: 32 word)) :: 16 word) = of_nat len"
    using um by (metis of_nat_unat)
  have ul: "unat (of_nat len :: 16 word) = len"
    using assms by (simp add: unat_of_nat16 len_def)
  have uo: "unat (of_nat off :: 16 word) = off"
    using off by (simp add: unat_of_nat16)
  show ?thesis
    by (subst segment_loop.simps) (simp add: uc c rem le ps ul uo Let_def del: of_nat_diff)
qed

text \<open>
  From any offset on, the loop returns, and the segments it appends tile the rest of
  the payload.
\<close>

lemma segment_loop_tiles:
  assumes "1 \<le> unat (max_segment_size cfg)" "length P < 65536" "off \<le> length P"
  shows "\<exists>rest. segment_loop cfg P (of_nat (length P)) sq (of_nat off) segs = Some (segs @ rest) \<and>
               tiles P (unat (max_segment_size cfg)) sq off rest"
  using assms(3)
proof (induction "length P - off" arbitrary: off segs rule: less_induct)
  case less
  let ?N = "length P" and ?M = "unat (max_segment_size cfg)"
  show ?case
  proof (cases "off < ?N")
    case False
    with less.prems have "off = ?N" by simp
    then show ?thesis
      using assms(2) by (intro exI [of _ "[]"]) (simp add: segment_loop_exit)
  next
    case True
    define len where "len = min ?M (?N - off)"
    define g where "g = \<lparr>header = \<lparr>message_length = of_nat ?N, segment_offset = of_nat off,
                       segment_length = of_nat len, sequence_number = sq,
                       tp_message_type = (if ?N - off \<le> ?M then LAST_SEGMENT
                          else CONSECUTIVE_SEGMENT)\<rparr>,
                     seg_payload = take len (drop off P)\<rparr>"
    have len1: "1 \<le> len" "len \<le> ?M" "off + len \<le> ?N"
      using True assms(1) by (auto simp: len_def)
    have step: "segment_loop cfg P (of_nat ?N) sq (of_nat off) segs =
                segment_loop cfg P (of_nat ?N) sq (of_nat (off + len)) (segs @ [g])"
      unfolding g_def len_def using True assms(2) by (rule segment_loop_step)
    from len1 True have "?N - (off + len) < ?N - off" by simp
    from less.hyps [OF this, of "segs @ [g]"] len1
    obtain rest where rest: "segment_loop cfg P (of_nat ?N) sq (of_nat (off + len)) (segs @ [g]) =
        Some ((segs @ [g]) @ rest)" "tiles P ?M sq (off + len) rest"
      by auto
    have go: "seg_off g = off" "seg_len g = len"
      using True assms(2) len1 by (simp_all add: seg_off_def seg_len_def g_def unat_of_nat16)
    have empty: "rest = [] \<longleftrightarrow> off + len = ?N"
      using rest(2) len1 by (cases rest) auto
    have ty: "tp_message_type (header g) = (if rest = [] then LAST_SEGMENT else CONSECUTIVE_SEGMENT)"
      using True len1 by (auto simp: g_def empty len_def)
    have full: "rest \<noteq> [] \<longrightarrow> len = ?M"
      using empty True by (auto simp: len_def)
    have hd: "message_length (header g) = of_nat ?N" "sequence_number (header g) = sq"
      "seg_payload g = take len (drop off P)"
      by (simp_all add: g_def)
    have t: "tiles P ?M sq off (g # rest)"
      using rest(2) len1 full by (simp add: go ty hd)
    have "segment_loop cfg P (of_nat ?N) sq (of_nat off) segs = Some (segs @ g # rest)"
      by (simp only: step rest(1) append_assoc append_Cons append_Nil)
    with t show ?thesis by blast
  qed
qed


text \<open>
  The loop returns only for a total length below 65536: the 16-bit counter cannot reach
  a larger one.
\<close>

lemma segment_loop_Some_small:
  assumes "segment_loop cfg p tlen sq off segs = Some y"
  shows "unat tlen < 65536"
  apply (rule segment_loop.raw_induct [where P = "\<lambda>_ _ t _ _ _ _. unat t < 65536", OF _ assms])
  subgoal premises prems for loop cfg p tlen sq off segs y
  proof (cases "ucast off < tlen")
    case True
    with prems(2) show ?thesis
      by (auto simp: Let_def dest: prems(1))
  next
    case False
    then have "tlen \<le> ucast off" by simp
    then have "unat tlen \<le> unat (ucast off :: 32 word)" by (simp add: word_le_nat_alt)
    also have "\<dots> = unat off" by (rule unat_ucast_16_32)
    also have "\<dots> < 65536" by (rule unat_lt_16)
    finally show ?thesis .
  qed
  done

lemma segment_loop_diverges:
  "65536 \<le> unat tlen \<Longrightarrow> segment_loop cfg p tlen sq off segs = None"
  using segment_loop_Some_small [of cfg p tlen sq off segs]
  by (cases "segment_loop cfg p tlen sq off segs") auto

lemma length_Message_serialize: "length (Message_serialize m) = 16 + length (payload m)"
  by (simp add: Message_serialize_def be32_def)

text \<open>
  The output of \<open>segment_message\<close> for a message that is split, with
  \<open>16 \<le> max_segment_size < N < 65536\<close>: the first segment, followed by segments that
  tile the payload from \<open>max_segment_size - 16\<close> on, all with the sequence number taken
  at the start; the counter has advanced by two.
\<close>

lemma segment_message_split:
  fixes s :: TpSegmenter and m :: Message
  defines "M \<equiv> unat (max_segment_size (seg_config s))"
  assumes M: "16 \<le> M" "M < length (payload m)" and N: "length (payload m) < 65536"
    and mms: "length (payload m) \<le> unat (max_message_size (seg_config s))"
  shows "\<exists>rest. segment_message s m segs =
            Some (SUCCESS_TP,
                  segs @ first_segment (take 16 (Message_serialize m)) (payload m) M
                           (next_sequence_number s) # rest,
                  s\<lparr>next_sequence_number := next_sequence_number s + 2\<rparr>) \<and>
          tiles (payload m) M (next_sequence_number s) (M - 16) rest"
proof -
  let ?P = "payload m" and ?cfg = "seg_config s" and ?sq = "next_sequence_number s"
  let ?N = "length ?P" and ?F = "M - 16"
  let ?hdr = "take 16 (Message_serialize m)"
  have uN: "unat (of_nat ?N :: 32 word) = ?N" using N by (simp add: unat_of_nat32)
  have "(16 :: 32 word) \<le> max_segment_size ?cfg"
    using M(1) by (simp add: word_le_nat_alt M_def)
  then have uF: "unat (max_segment_size ?cfg - 16) = ?F"
    by (simp add: unat_sub M_def)
  have fps: "min (unat (max_segment_size ?cfg - 16)) (unat (of_nat ?N :: 32 word)) = ?F"
    using M by (simp add: uF uN)
  have lh: "length (?hdr @ take ?F ?P) = M"
    using M by (simp add: length_Message_serialize)
  have M1: "1 \<le> unat (max_segment_size ?cfg)" using M(1) by (simp add: M_def)
  have "?F \<le> ?N" using M by simp
  from segment_loop_tiles [OF M1 N this, of ?sq
      "segs @ [first_segment ?hdr ?P M ?sq]"]
  obtain rest where rest: "segment_loop ?cfg ?P (of_nat ?N) ?sq (of_nat ?F)
        (segs @ [first_segment ?hdr ?P M ?sq]) =
      Some ((segs @ [first_segment ?hdr ?P M ?sq]) @ rest)"
    "tiles ?P M ?sq ?F rest"
    unfolding M_def by blast
  have cms: "create_multi_segments s m ?P segs =
      Some (SUCCESS_TP, (segs @ [first_segment ?hdr ?P M ?sq]) @ rest,
            s\<lparr>next_sequence_number := ?sq + 2\<rparr>)"
    unfolding create_multi_segments_def Let_def fps lh
    using rest(1) by (simp add: first_segment_def del: of_nat_diff)
  have "segment_message s m segs = create_multi_segments s m ?P segs"
    using M mms by (simp add: segment_message_def Let_def M_def not_less)
  with cms rest(2) show ?thesis by auto
qed

text \<open>
  What the code does for a message that is within \<open>max_message_size\<close>: whenever the
  payload alone is at most \<open>max_segment_size\<close>, one \<open>SINGLE_MESSAGE\<close> segment carries the
  whole serialized message, of \<open>16 + N\<close> bytes.
\<close>

lemma segment_message_single:
  assumes "length (payload m) \<le> unat (max_message_size (seg_config s))"
    and "length (payload m) \<le> unat (max_segment_size (seg_config s))"
  shows "segment_message s m segs =
           Some (SUCCESS_TP,
                 segs @ [\<lparr>header =
                            \<lparr>message_length = of_nat (length (payload m)), segment_offset = 0,
                             segment_length = of_nat (16 + length (payload m)),
                             sequence_number = next_sequence_number s,
                             tp_message_type = SINGLE_MESSAGE\<rparr>,
                          seg_payload = Message_serialize m\<rparr>],
                 s\<lparr>next_sequence_number := next_sequence_number s + 1\<rparr>)"
  using assms
  by (simp add: segment_message_def Let_def length_Message_serialize not_less)

text \<open>
  Claim C6 against the code: with \<open>max_segment_size = 100\<close>, a message with a payload of
  90 bytes serializes to 106 bytes, more than a segment may hold, and
  \<open>TpManager::needs_segmentation\<close> says it needs segmentation. \<open>segment_message\<close> compares
  the payload size, not the serialized size, with \<open>max_segment_size\<close> and emits one
  \<open>SINGLE_MESSAGE\<close> segment of 106 bytes.
\<close>

theorem single_message_larger_than_max_segment_size:
  "segment_message (TpSegmenter_init tp_config_100) message_90 [] =
     Some (SUCCESS_TP,
       [\<lparr>header = \<lparr>message_length = 90, segment_offset = 0, segment_length = 106,
                   sequence_number = 0, tp_message_type = SINGLE_MESSAGE\<rparr>,
         seg_payload = Message_serialize message_90\<rparr>],
       \<lparr>seg_config = tp_config_100, next_sequence_number = 1\<rparr>) \<and>
   length (Message_serialize message_90) = 106 \<and>
   unat (max_segment_size tp_config_100) = 100 \<and>
   needs_segmentation tp_config_100 message_90"
  by (simp add: segment_message_def TpSegmenter_init_def tp_config_100_def TpConfig_default_def
      message_90_def Message_make_def set_payload_def update_length_def length_Message_serialize
      needs_segmentation_def Let_def)

text \<open>
  A message that has to be split and whose payload has 65536 bytes or more makes
  \<open>segment_message\<close> loop for ever.
\<close>

lemma segment_message_never_returns:
  assumes "65536 \<le> length (payload m)"
    and "length (payload m) \<le> unat (max_message_size (seg_config s))"
    and "unat (max_segment_size (seg_config s)) < length (payload m)"
  shows "segment_message s m segs = None"
proof -
  have "unat (max_message_size (seg_config s)) < 4294967296"
    using unsigned_less [where 'a = nat and w = "max_message_size (seg_config s)"] by simp
  with assms(2) have "length (payload m) < 4294967296" by simp
  then have "unat (of_nat (length (payload m)) :: 32 word) = length (payload m)"
    by (rule unat_of_nat32)
  with assms(1) have "65536 \<le> unat (of_nat (length (payload m)) :: 32 word)" by simp
  then show ?thesis
    using assms(2,3)
    by (simp add: segment_message_def create_multi_segments_def Let_def not_less
        segment_loop_diverges)
qed

text \<open>
  Claim C7 against the code: in the default configuration, which admits messages of up
  to 1000000 bytes, \<open>segment_message\<close> does not return for a payload of 65536 bytes.
  The loop counter \<open>payload_offset\<close> is a \<open>uint16_t\<close> and stays below the total length
  for ever (\<open>segment_loop_diverges\<close>). For payloads below 65536 bytes that are larger
  than \<open>max_segment_size \<ge> 16\<close>, the output has the shape the claim describes
  (\<open>segment_message_split\<close>).
\<close>

theorem segment_message_64k_never_returns:
  "length (payload message_64k) = 65536 \<and>
   unat (max_message_size TpConfig_default) = 1000000 \<and>
   segment_message (TpSegmenter_init TpConfig_default) message_64k [] = None"
  by (simp add: segment_message_def create_multi_segments_def TpSegmenter_init_def
      TpConfig_default_def message_64k_def Message_make_def set_payload_def update_length_def
      Let_def segment_loop_diverges)

section \<open>Verification: reassembler\<close>

lemma length_std_copy [simp]: "length (std_copy src pos dst) = length dst"
  by (induction src arbitrary: pos dst) simp_all

lemma nth_std_copy:
  "k < length dst \<Longrightarrow>
   std_copy src pos dst ! k =
     (if pos \<le> k \<and> k < pos + length src then src ! (k - pos) else dst ! k)"
proof (induction src arbitrary: pos dst)
  case Nil
  then show ?case by auto
next
  case (Cons x xs)
  then show ?case
    by (auto simp: nth_list_update nth_Cons' not_less Suc_diff_le)
qed

lemma length_mark_from [simp]: "length (mark_from off n segs) = length segs"
  by (induction n) (simp_all add: mark_from_def)

lemma nth_mark_from:
  "k < length segs \<Longrightarrow> mark_from off n segs ! k \<longleftrightarrow> segs ! k \<or> (off \<le> k \<and> k < off + n)"
proof (induction n)
  case 0
  then show ?case by (auto simp: mark_from_def)
next
  case (Suc n)
  have "mark_from off (Suc n) segs =
      (if off + n < length (mark_from off n segs) then (mark_from off n segs)[off + n := True]
       else mark_from off n segs)"
    by (simp add: mark_from_def)
  then have step: "mark_from off (Suc n) segs =
      (if off + n < length segs then (mark_from off n segs)[off + n := True]
       else mark_from off n segs)"
    by (simp only: length_mark_from)
  from Suc show ?case
    by (auto simp: step nth_list_update)
qed

text \<open>
  What tiling gives: each segment's fields, at most one segment over a position, a
  segment over every position, and no segment twice.
\<close>

lemma tiles_member:
  assumes "tiles P M sq off rest" "g \<in> set rest"
  shows "off \<le> seg_off g" "1 \<le> seg_len g" "seg_off g + seg_len g \<le> length P"
    "seg_len g \<le> M"
    "seg_payload g = take (seg_len g) (drop (seg_off g) P)"
    "message_length (header g) = of_nat (length P)"
    "sequence_number (header g) = sq"
    "tp_message_type (header g) = CONSECUTIVE_SEGMENT \<or> tp_message_type (header g) = LAST_SEGMENT"
    "seg_len g = length (seg_payload g)"
proof -
  have "off \<le> seg_off g \<and> 1 \<le> seg_len g \<and> seg_off g + seg_len g \<le> length P \<and>
    seg_len g \<le> M \<and> seg_payload g = take (seg_len g) (drop (seg_off g) P) \<and>
    message_length (header g) = of_nat (length P) \<and> sequence_number (header g) = sq \<and>
    (tp_message_type (header g) = CONSECUTIVE_SEGMENT \<or>
     tp_message_type (header g) = LAST_SEGMENT)"
    using assms
  proof (induction rest arbitrary: off)
    case Nil
    then show ?case by simp
  next
    case (Cons a gs)
    show ?case
    proof (cases "g = a")
      case True
      with Cons.prems(1) show ?thesis by auto
    next
      case False
      with Cons.prems have g: "g \<in> set gs" and t: "tiles P M sq (off + seg_len a) gs"
        by simp_all
      from Cons.IH [OF t g] show ?thesis by auto
    qed
  qed
  then show "off \<le> seg_off g" "1 \<le> seg_len g" "seg_off g + seg_len g \<le> length P"
    "seg_len g \<le> M"
    "seg_payload g = take (seg_len g) (drop (seg_off g) P)"
    "message_length (header g) = of_nat (length P)"
    "sequence_number (header g) = sq"
    "tp_message_type (header g) = CONSECUTIVE_SEGMENT \<or> tp_message_type (header g) = LAST_SEGMENT"
    by blast+
  then show "seg_len g = length (seg_payload g)"
    by (metis add_diff_cancel_left' diff_le_mono length_drop length_take min.absorb2)
qed

lemma tiles_unique:
  assumes "tiles P M sq off rest" "g \<in> set rest" "g' \<in> set rest" "covers g i" "covers g' i"
  shows "g = g'"
  using assms
proof (induction rest arbitrary: off)
  case Nil
  then show ?case by simp
next
  case (Cons a gs)
  from Cons.prems(1) have t: "tiles P M sq (off + seg_len a) gs" and a: "seg_off a = off"
    by simp_all
  have later: "off + seg_len a \<le> seg_off h" if "h \<in> set gs" for h
    using tiles_member(1) [OF t that] .
  show ?case
  proof (cases "g = a")
    case True
    show ?thesis
    proof (cases "g' = a")
      case True
      with \<open>g = a\<close> show ?thesis by simp
    next
      case False
      with Cons.prems have "g' \<in> set gs" by simp
      from later [OF this] Cons.prems(4,5) True a show ?thesis
        by (simp add: covers_def)
    qed
  next
    case False
    with Cons.prems have g: "g \<in> set gs" by simp
    show ?thesis
    proof (cases "g' = a")
      case True
      from later [OF g] Cons.prems(4,5) True a show ?thesis
        by (simp add: covers_def)
    next
      case False
      with Cons.prems have "g' \<in> set gs" by simp
      from Cons.IH [OF t g this Cons.prems(4,5)] show ?thesis .
    qed
  qed
qed

lemma tiles_cover:
  assumes "tiles P M sq off rest" "off \<le> i" "i < length P"
  shows "\<exists>g\<in>set rest. covers g i"
  using assms
proof (induction rest arbitrary: off)
  case Nil
  then show ?case by simp
next
  case (Cons a gs)
  from Cons.prems(1) have t: "tiles P M sq (off + seg_len a) gs" and a: "seg_off a = off"
    by simp_all
  show ?case
  proof (cases "i < off + seg_len a")
    case True
    with Cons.prems(2) a have "covers a i" by (simp add: covers_def)
    then show ?thesis by auto
  next
    case False
    then have "off + seg_len a \<le> i" by simp
    from Cons.IH [OF t this Cons.prems(3)] show ?thesis by auto
  qed
qed

lemma tiles_distinct:
  assumes "tiles P M sq off rest"
  shows "distinct rest"
  using assms
proof (induction rest arbitrary: off)
  case Nil
  then show ?case by simp
next
  case (Cons a gs)
  from Cons.prems(1) have t: "tiles P M sq (off + seg_len a) gs" and a: "seg_off a = off"
    and l: "1 \<le> seg_len a"
    by simp_all
  have "a \<notin> set gs"
  proof
    assume "a \<in> set gs"
    from tiles_member(1) [OF t this] a l show False by simp
  qed
  with Cons.IH [OF t] show ?case by simp
qed

lemma mark_segment_received_eq:
  "mark_segment_received b off len =
     b\<lparr>received_segments :=
         mark_from (unat off) (unat len)
           (if length (received_segments b) < unat (total_length b)
            then received_segments b @
                 replicate (unat (total_length b) - length (received_segments b)) False
            else received_segments b)\<rparr>"
  by (simp add: mark_segment_received_def mark_from_def Let_def)

lemma is_complete_holds:
  assumes "buffer_holds P F key S b"
  shows "is_complete b \<longleftrightarrow> (\<forall>i<length P. i < F \<or> (\<exists>g\<in>S. covers g i))"
  using assms by (auto simp: buffer_holds_def is_complete_def list_all_length)

lemma complete_data:
  assumes "buffer_holds P F key S b" "is_complete b"
  shows "received_data b = P"
proof (rule nth_equalityI)
  show "length (received_data b) = length P"
    using assms(1) by (simp add: buffer_holds_def)
next
  fix i assume "i < length (received_data b)"
  then have i: "i < length P" using assms(1) by (simp add: buffer_holds_def)
  from assms have "received_segments b ! i"
    using i by (auto simp: buffer_holds_def is_complete_def list_all_length)
  with assms(1) i show "received_data b ! i = P ! i"
    by (simp add: buffer_holds_def)
qed

text \<open>
  Adding a consecutive or last segment that was not added before copies its bytes and
  marks its range.
\<close>

lemma add_rest_segment:
  assumes hold: "buffer_holds P F key S b"
    and N: "length P < 65536"
    and off: "F \<le> seg_off g" and len: "1 \<le> seg_len g"
    and bound: "seg_off g + seg_len g \<le> length P"
    and pl: "seg_payload g = take (seg_len g) (drop (seg_off g) P)"
    and ty: "tp_message_type (header g) = CONSECUTIVE_SEGMENT \<or>
             tp_message_type (header g) = LAST_SEGMENT"
    and fresh: "\<not> (\<exists>g'\<in>S. covers g' (seg_off g))"
  shows "\<exists>b'. add_segment_to_buffer b g = (True, b') \<and> buffer_holds P F key (insert g S) b'"
proof -
  let ?N = "length P" and ?o = "seg_off g" and ?l = "seg_len g"
  from hold have lens: "length (received_data b) = ?N" "length (received_segments b) = ?N"
    and tot: "total_length b = of_nat ?N" and key: "rb_message_id b = key"
    and nc: "\<not> complete b"
    and marks: "\<And>i. i < ?N \<Longrightarrow> received_segments b ! i \<longleftrightarrow> (i < F \<or> (\<exists>g\<in>S. covers g i))"
    and data: "\<And>i. i < ?N \<Longrightarrow> received_segments b ! i \<Longrightarrow> received_data b ! i = P ! i"
    by (auto simp: buffer_holds_def)
  have utot: "unat (total_length b) = ?N"
    using N by (simp add: tot unat_of_nat32)
  have lp: "length (seg_payload g) = ?l"
    using bound by (subst pl) simp
  have o_lt: "?o < ?N" using len bound by simp
  have "\<not> received_segments b ! ?o"
    using marks [OF o_lt] off fresh by simp
  then have notrecv: "\<not> is_segment_received b (segment_offset (header g)) (segment_length (header g))"
    using len
    by (auto simp: is_segment_received_def list_all_iff seg_off_def seg_len_def
        intro!: bexI [of _ 0])
  have inb: "\<not> unat (segment_offset (header g)) + unat (segment_length (header g)) > unat (total_length b)"
    using bound by (simp add: utot seg_off_def seg_len_def)
  have ul: "unat (of_nat (length (seg_payload g)) :: 16 word) = ?l"
    using N bound by (simp add: lp unat_of_nat16)
  define data' where "data' = std_copy (seg_payload g) ?o (received_data b)"
  define marks' where "marks' = mark_from ?o ?l (received_segments b)"
  define b' where "b' = b\<lparr>received_data := data', received_segments := marks',
                          last_sequence_number := sequence_number (header g)\<rparr>"
  have ntype: "tp_message_type (header g) \<noteq> FIRST_SEGMENT" "tp_message_type (header g) \<noteq> SINGLE_MESSAGE"
    using ty by auto
  have res: "add_segment_to_buffer b g = (True, b')"
    using notrecv inb ntype
    by (simp add: add_segment_to_buffer_def Let_def mark_segment_received_eq utot lens ul
        b'_def data'_def marks'_def seg_off_def [symmetric])
  have m': "marks' ! i \<longleftrightarrow> (i < F \<or> (\<exists>g'\<in>insert g S. covers g' i))" if "i < ?N" for i
    using that marks [OF that]
    by (auto simp: marks'_def nth_mark_from lens covers_def)
  have d': "data' ! i = P ! i" if "i < ?N" "marks' ! i" for i
  proof (cases "covers g i")
    case True
    then have "data' ! i = seg_payload g ! (i - ?o)"
      using that(1) by (simp add: data'_def nth_std_copy lens lp covers_def)
    also have "\<dots> = P ! i"
      using True bound by (subst pl) (auto simp: covers_def)
    finally show ?thesis .
  next
    case False
    then have "data' ! i = received_data b ! i"
      using that(1) by (auto simp: data'_def nth_std_copy lens lp covers_def)
    moreover from that False have "received_segments b ! i"
      by (auto simp: marks'_def nth_mark_from lens covers_def)
    ultimately show ?thesis using data [OF that(1)] by simp
  qed
  have "buffer_holds P F key (insert g S) b'"
    unfolding buffer_holds_def
    using key tot nc m' d'
    by (simp add: b'_def data'_def marks'_def lens)
  with res show ?thesis by blast
qed

text \<open>
  Adding the first segment to a fresh buffer drops the 16 header bytes, copies the rest
  to the start and marks that part.
\<close>

lemma add_first_segment:
  fixes P hdr :: "byte list" and M :: nat and sq :: "8 word"
  assumes N: "length P < 65536" and M: "16 \<le> M" "M < length P" and h: "length hdr = 16"
  defines "f \<equiv> first_segment hdr P M sq"
  shows "\<exists>b'. add_segment_to_buffer (TpReassemblyBuffer_init key (of_nat (length P))) f = (True, b') \<and>
              buffer_holds P (M - 16) key {} b'"
proof -
  let ?N = "length P" and ?F = "M - 16"
  let ?b = "TpReassemblyBuffer_init key (of_nat ?N)"
  have uN: "unat (of_nat ?N :: 32 word) = ?N" using N by (simp add: unat_of_nat32)
  have uM: "unat (of_nat M :: 16 word) = M" using M N by (simp add: unat_of_nat16)
  have uF: "unat (of_nat ?F :: 16 word) = ?F" using M N by (intro unat_of_nat16) simp
  have lp: "length (seg_payload f) = M" using M h by (simp add: f_def first_segment_def)
  have dp: "drop 16 (seg_payload f) = take ?F P" using h by (simp add: f_def first_segment_def)
  have notrecv: "\<not> is_segment_received ?b (segment_offset (header f)) (segment_length (header f))"
    using M
    by (auto simp: is_segment_received_def TpReassemblyBuffer_init_def f_def first_segment_def uM
        list_all_iff intro!: exI [of _ 0])
  define data' where "data' = std_copy (take ?F P) 0 (replicate ?N (0::byte))"
  define marks' where "marks' = mark_from 0 ?F (replicate ?N False)"
  define b' where "b' = \<lparr>rb_message_id = key, total_length = of_nat ?N, received_data = data',
       received_segments = marks', last_sequence_number = sq, complete = False\<rparr>"
  have hf: "segment_offset (header f) = 0" "segment_length (header f) = of_nat M"
    "tp_message_type (header f) = FIRST_SEGMENT" "sequence_number (header f) = sq"
    by (simp_all add: f_def first_segment_def)
  have inb: "\<not> unat (segment_offset (header f)) + unat (segment_length (header f)) >
      unat (total_length ?b)"
    using M by (simp add: hf uM uN TpReassemblyBuffer_init_def)
  have res: "add_segment_to_buffer ?b f = (True, b')"
  proof (cases "M = 16")
    case True
    then have e: "take ?F P = []" "?F = 0" by simp_all
    have "\<not> length (seg_payload f) > 16" using True lp by simp
    with notrecv inb show ?thesis
      by (simp add: add_segment_to_buffer_def Let_def mark_segment_received_eq hf e
          TpReassemblyBuffer_init_def uN b'_def data'_def marks'_def)
  next
    case False
    with M have "length (seg_payload f) > 16" using lp by simp
    with notrecv inb show ?thesis
      by (simp add: add_segment_to_buffer_def Let_def mark_segment_received_eq hf lp dp uF
          TpReassemblyBuffer_init_def uN b'_def data'_def marks'_def del: of_nat_diff)
  qed
  have m': "marks' ! i \<longleftrightarrow> i < ?F" if "i < ?N" for i
    using that by (simp add: marks'_def nth_mark_from)
  have d': "data' ! i = P ! i" if "i < ?N" "marks' ! i" for i
    using that M by (simp add: m' data'_def nth_std_copy)
  have "buffer_holds P ?F key {} b'"
    unfolding buffer_holds_def using m' d'
    by (simp add: b'_def data'_def marks'_def)
  with res show ?thesis by blast
qed

text \<open>
  \<open>process_segment\<close> on the first segment, and on a later segment once the buffer
  exists: the call succeeds, and it completes exactly when every position is marked.
\<close>

lemma process_first_segment:
  fixes P hdr :: "byte list" and M :: nat and sq :: "8 word"
  assumes N: "length P < 65536" and M: "16 \<le> M" "M < length P" and h: "length hdr = 16"
    and mms: "length P \<le> unat (max_message_size (re_config r))"
    and free: "reassembly_buffers r (ucast sq) = None"
  defines "f \<equiv> first_segment hdr P M sq"
  shows "\<exists>b'. process_segment r f cm =
                (True, cm, r\<lparr>reassembly_buffers := (reassembly_buffers r)(ucast sq \<mapsto> b')\<rparr>) \<and>
              buffer_holds P (M - 16) (ucast sq) {} b'"
proof -
  let ?N = "length P" and ?F = "M - 16" and ?key = "ucast sq :: 32 word"
  have uN: "unat (of_nat ?N :: 32 word) = ?N" using N by (simp add: unat_of_nat32)
  have uM: "unat (of_nat M :: 16 word) = M" using M N by (simp add: unat_of_nat16)
  from add_first_segment [OF N M h, of key sq for key]
  obtain b' where b': "add_segment_to_buffer (TpReassemblyBuffer_init ?key (of_nat ?N)) f = (True, b')"
      "buffer_holds P ?F ?key {} b'"
    unfolding f_def first_segment_def by blast
  have valid: "validate_segment (re_config r) f"
    using M h mms
    by (simp add: validate_segment_def f_def first_segment_def uM uN word_le_nat_alt not_less Let_def)
  have find: "find_or_create_buffer r f =
      (Some (?key, TpReassemblyBuffer_init ?key (of_nat ?N)),
       r\<lparr>reassembly_buffers := (reassembly_buffers r)(?key \<mapsto> TpReassemblyBuffer_init ?key (of_nat ?N))\<rparr>)"
    using free by (simp add: find_or_create_buffer_def f_def first_segment_def Let_def)
  have "\<not> is_complete b'"
  proof -
    have "?F < ?N" using M by simp
    moreover have "\<not> (?F < ?F \<or> (\<exists>g\<in>{}. covers g ?F))" by simp
    ultimately show ?thesis
      unfolding is_complete_holds [OF b'(2)] by blast
  qed
  then have "process_segment r f cm =
      (True, cm, r\<lparr>reassembly_buffers := (reassembly_buffers r)(?key \<mapsto> b')\<rparr>)"
    using valid by (simp add: process_segment_def find b'(1))
  with b'(2) show ?thesis by blast
qed

lemma process_rest_segment:
  assumes hold: "buffer_holds P F key S b"
    and N: "length P < 65536"
    and mms: "length P \<le> unat (max_message_size (re_config r))"
    and off: "F \<le> seg_off g" and len: "1 \<le> seg_len g"
    and bound: "seg_off g + seg_len g \<le> length P"
    and pl: "seg_payload g = take (seg_len g) (drop (seg_off g) P)"
    and ml: "message_length (header g) = of_nat (length P)"
    and sq: "ucast (sequence_number (header g)) = key"
    and ty: "tp_message_type (header g) = CONSECUTIVE_SEGMENT \<or>
             tp_message_type (header g) = LAST_SEGMENT"
    and fresh: "\<not> (\<exists>g'\<in>S. covers g' (seg_off g))"
  shows "\<exists>b'. buffer_holds P F key (insert g S) b' \<and>
           process_segment (r\<lparr>reassembly_buffers := (reassembly_buffers r)(key \<mapsto> b)\<rparr>) g cm =
             (if is_complete b'
              then (True, P, r\<lparr>reassembly_buffers := (reassembly_buffers r)(key := None)\<rparr>)
              else (True, cm, r\<lparr>reassembly_buffers := (reassembly_buffers r)(key \<mapsto> b')\<rparr>))"
proof -
  let ?N = "length P"
  let ?r1 = "r\<lparr>reassembly_buffers := (reassembly_buffers r)(key \<mapsto> b)\<rparr>"
  have uN: "unat (of_nat ?N :: 32 word) = ?N" using N by (simp add: unat_of_nat32)
  from add_rest_segment [OF hold N off len bound pl ty fresh]
  obtain b' where b': "add_segment_to_buffer b g = (True, b')" "buffer_holds P F key (insert g S) b'"
    by blast
  have lp: "length (seg_payload g) = seg_len g"
    using bound by (subst pl) simp
  have valid: "validate_segment (re_config ?r1) g"
    using bound mms
    by (simp add: validate_segment_def Let_def ml uN word_le_nat_alt not_less lp
        seg_off_def first_segment_def [symmetric] seg_len_def [symmetric])
  have find: "find_or_create_buffer ?r1 g = (Some (key, b), ?r1)"
    by (simp add: find_or_create_buffer_def Let_def sq)
  have id: "rb_message_id b' = key"
    using b'(2) by (simp add: buffer_holds_def)
  show ?thesis
  proof (cases "is_complete b'")
    case True
    have "received_data b' = P"
      using complete_data [OF b'(2) True] .
    with True valid id have "process_segment ?r1 g cm =
        (True, P, r\<lparr>reassembly_buffers := (reassembly_buffers r)(key := None)\<rparr>)"
      by (simp add: process_segment_def find b'(1) get_complete_message_def is_complete_def)
    with True b'(2) show ?thesis by auto
  next
    case False
    with valid have "process_segment ?r1 g cm =
        (True, cm, r\<lparr>reassembly_buffers := (reassembly_buffers r)(key \<mapsto> b')\<rparr>)"
      by (simp add: process_segment_def find b'(1))
    with False b'(2) show ?thesis by auto
  qed
qed

lemma process_segments_append:
  "process_segments r (xs @ ys) cm =
     (case process_segments r xs cm of
        (oks1, cm1, r1) \<Rightarrow>
          (case process_segments r1 ys cm1 of (oks2, cm2, r2) \<Rightarrow> (oks1 @ oks2, cm2, r2)))"
  by (induction xs arbitrary: r cm) (simp_all split: prod.split)

lemma not_complete_missing:
  assumes t: "tiles P M sq F rest" and S: "S \<subseteq> set rest"
    and g0: "g0 \<in> set rest" "g0 \<notin> S" and hold: "buffer_holds P F key S b"
  shows "\<not> is_complete b"
proof -
  let ?i = "seg_off g0"
  note m = tiles_member [OF t g0(1)]
  have i: "?i < length P" "F \<le> ?i" using m(1,2,3) by simp_all
  have c0: "covers g0 ?i" using m(2) by (simp add: covers_def)
  have "\<not> (\<exists>g\<in>S. covers g ?i)"
  proof
    assume "\<exists>g\<in>S. covers g ?i"
    then obtain g where g: "g \<in> S" "covers g ?i" by blast
    with S have "g \<in> set rest" by blast
    from tiles_unique [OF t this g0(1) g(2) c0] g(1) g0(2) show False by simp
  qed
  with i show ?thesis
    unfolding is_complete_holds [OF hold] by (auto simp: not_less)
qed

lemma complete_all:
  assumes t: "tiles P M sq F rest" and hold: "buffer_holds P F key (set rest) b"
  shows "is_complete b"
  unfolding is_complete_holds [OF hold]
proof (intro allI impI)
  fix i assume i: "i < length P"
  show "i < F \<or> (\<exists>g\<in>set rest. covers g i)"
  proof (cases "i < F")
    case True
    then show ?thesis by simp
  next
    case False
    then have "F \<le> i" by simp
    from tiles_cover [OF t this i] show ?thesis by simp
  qed
qed

text \<open>
  Feeding distinct later segments that do not yet exhaust the rest succeeds without
  completing; feeding the one that was missing completes with the payload and removes
  the buffer.
\<close>

lemma feed_partial:
  assumes t: "tiles P M sq F rest" and N: "length P < 65536"
    and mms: "length P \<le> unat (max_message_size (re_config r))"
    and key: "key = ucast sq"
  shows "distinct ys \<Longrightarrow> set ys \<subseteq> set rest \<Longrightarrow> S \<subseteq> set rest \<Longrightarrow> set ys \<inter> S = {} \<Longrightarrow>
         S \<union> set ys \<noteq> set rest \<Longrightarrow> buffer_holds P F key S b \<Longrightarrow>
         \<exists>b'. process_segments (r\<lparr>reassembly_buffers := (reassembly_buffers r)(key \<mapsto> b)\<rparr>) ys cm =
                 (replicate (length ys) True, cm,
                  r\<lparr>reassembly_buffers := (reassembly_buffers r)(key \<mapsto> b')\<rparr>) \<and>
               buffer_holds P F key (S \<union> set ys) b'"
proof (induction ys arbitrary: S b)
  case Nil
  then show ?case by auto
next
  case (Cons g ys)
  from Cons.prems have g: "g \<in> set rest" "g \<notin> S" by auto
  note m = tiles_member [OF t g(1)]
  have fresh: "\<not> (\<exists>g'\<in>S. covers g' (seg_off g))"
  proof
    assume "\<exists>g'\<in>S. covers g' (seg_off g)"
    then obtain g' where g': "g' \<in> S" "covers g' (seg_off g)" by blast
    with Cons.prems(3) have "g' \<in> set rest" by blast
    moreover have "covers g (seg_off g)" using m(2) by (simp add: covers_def)
    ultimately have "g' = g" using tiles_unique [OF t _ g(1) g'(2)] by blast
    with g' g show False by simp
  qed
  have sqk: "ucast (sequence_number (header g)) = key"
    using m(7) key by simp
  from process_rest_segment [OF Cons.prems(6) N mms m(1) m(2) m(3) m(5) m(6) sqk m(8) fresh, of cm]
  obtain b1 where b1: "buffer_holds P F key (insert g S) b1"
    "process_segment (r\<lparr>reassembly_buffers := (reassembly_buffers r)(key \<mapsto> b)\<rparr>) g cm =
      (if is_complete b1
       then (True, P, r\<lparr>reassembly_buffers := (reassembly_buffers r)(key := None)\<rparr>)
       else (True, cm, r\<lparr>reassembly_buffers := (reassembly_buffers r)(key \<mapsto> b1)\<rparr>))"
    by blast
  have sub: "insert g S \<subseteq> set rest" using g Cons.prems(3) by simp
  from Cons.prems(5) have "insert g S \<union> set ys \<noteq> set rest" by simp
  with sub Cons.prems(2) obtain g0 where "g0 \<in> set rest" "g0 \<notin> insert g S" by auto
  from not_complete_missing [OF t sub this b1(1)] have nc: "\<not> is_complete b1" .
  have step: "process_segment (r\<lparr>reassembly_buffers := (reassembly_buffers r)(key \<mapsto> b)\<rparr>) g cm =
      (True, cm, r\<lparr>reassembly_buffers := (reassembly_buffers r)(key \<mapsto> b1)\<rparr>)"
    using b1(2) nc by simp
  from Cons.prems have "distinct ys" "set ys \<subseteq> set rest" "set ys \<inter> insert g S = {}"
    "insert g S \<union> set ys \<noteq> set rest"
    by auto
  from Cons.IH [OF this(1,2) sub this(3,4) b1(1)]
  obtain b' where b': "process_segments (r\<lparr>reassembly_buffers := (reassembly_buffers r)(key \<mapsto> b1)\<rparr>) ys cm =
      (replicate (length ys) True, cm, r\<lparr>reassembly_buffers := (reassembly_buffers r)(key \<mapsto> b')\<rparr>)"
    "buffer_holds P F key (insert g S \<union> set ys) b'"
    by blast
  have "process_segments (r\<lparr>reassembly_buffers := (reassembly_buffers r)(key \<mapsto> b)\<rparr>) (g # ys) cm =
      (replicate (length (g # ys)) True, cm,
       r\<lparr>reassembly_buffers := (reassembly_buffers r)(key \<mapsto> b')\<rparr>)"
    by (simp only: process_segments.simps step b'(1) prod.case replicate_Suc length_Cons)
  moreover have "buffer_holds P F key (S \<union> set (g # ys)) b'"
    using b'(2) by simp
  ultimately show ?case by blast
qed

lemma feed_last:
  assumes t: "tiles P M sq F rest" and N: "length P < 65536"
    and mms: "length P \<le> unat (max_message_size (re_config r))"
    and key: "key = ucast sq"
    and g: "g \<in> set rest" "g \<notin> S" and S: "insert g S = set rest"
    and hold: "buffer_holds P F key S b"
  shows "process_segment (r\<lparr>reassembly_buffers := (reassembly_buffers r)(key \<mapsto> b)\<rparr>) g cm =
           (True, P, r\<lparr>reassembly_buffers := (reassembly_buffers r)(key := None)\<rparr>)"
proof -
  note m = tiles_member [OF t g(1)]
  have Ssub: "S \<subseteq> set rest" using S by blast
  have fresh: "\<not> (\<exists>g'\<in>S. covers g' (seg_off g))"
  proof
    assume "\<exists>g'\<in>S. covers g' (seg_off g)"
    then obtain g' where g': "g' \<in> S" "covers g' (seg_off g)" by blast
    with Ssub have "g' \<in> set rest" by blast
    moreover have "covers g (seg_off g)" using m(2) by (simp add: covers_def)
    ultimately have "g' = g" using tiles_unique [OF t _ g(1) g'(2)] by blast
    with g' g show False by simp
  qed
  have sqk: "ucast (sequence_number (header g)) = key"
    using m(7) key by simp
  from process_rest_segment [OF hold N mms m(1) m(2) m(3) m(5) m(6) sqk m(8) fresh, of cm]
  obtain b1 where b1: "buffer_holds P F key (insert g S) b1"
    "process_segment (r\<lparr>reassembly_buffers := (reassembly_buffers r)(key \<mapsto> b)\<rparr>) g cm =
      (if is_complete b1
       then (True, P, r\<lparr>reassembly_buffers := (reassembly_buffers r)(key := None)\<rparr>)
       else (True, cm, r\<lparr>reassembly_buffers := (reassembly_buffers r)(key \<mapsto> b1)\<rparr>))"
    by blast
  from b1(1) S have "buffer_holds P F key (set rest) b1" by simp
  from complete_all [OF t this] b1(2) show ?thesis by simp
qed

text \<open>
  A consecutive or last segment whose sequence number has no buffer is rejected and
  changes nothing; a valid first segment with a payload always gets its buffer.
\<close>

lemma process_without_buffer:
  assumes "tp_message_type (header g) = CONSECUTIVE_SEGMENT \<or>
           tp_message_type (header g) = LAST_SEGMENT"
    and "reassembly_buffers r (ucast (sequence_number (header g))) = None"
  shows "process_segment r g cm = (False, cm, r)"
  using assms by (auto simp: process_segment_def find_or_create_buffer_def Let_def)

lemma process_new_first_segment:
  assumes v: "validate_segment (re_config r) f"
    and ty: "tp_message_type (header f) = FIRST_SEGMENT"
    and ne: "seg_payload f \<noteq> []"
    and free: "reassembly_buffers r (ucast (sequence_number (header f))) = None"
  shows "\<exists>b. process_segment r f cm =
           (True, cm,
            r\<lparr>reassembly_buffers :=
                (reassembly_buffers r)(ucast (sequence_number (header f)) \<mapsto> b)\<rparr>)"
proof -
  let ?h = "header f"
  let ?key = "ucast (sequence_number ?h) :: 32 word"
  let ?off = "unat (segment_offset ?h)" and ?len = "unat (segment_length ?h)"
  let ?ml = "unat (message_length ?h)"
  let ?b = "TpReassemblyBuffer_init ?key (message_length ?h)"
  from v have len: "?len = length (seg_payload f)" and bound: "?off + ?len \<le> ?ml"
    by (auto simp: validate_segment_def Let_def split: if_splits)
  from len ne have len1: "1 \<le> ?len" by (cases "seg_payload f") simp_all
  have find: "find_or_create_buffer r f =
      (Some (?key, ?b), r\<lparr>reassembly_buffers := (reassembly_buffers r)(?key \<mapsto> ?b)\<rparr>)"
    using free ty by (simp add: find_or_create_buffer_def Let_def)
  have notrecv: "\<not> is_segment_received ?b (segment_offset ?h) (segment_length ?h)"
    using len1
    by (auto simp: is_segment_received_def TpReassemblyBuffer_init_def list_all_iff
        intro!: exI [of _ 0])
  define bytes where "bytes = (if length (seg_payload f) > 16 then length (seg_payload f) - 16 else 0)"
  have bytes: "bytes < ?len" "bytes < 65536"
    using len1 len unat_lt_16 [of "segment_length ?h"] by (auto simp: bytes_def)
  have ub: "unat (of_nat bytes :: 16 word) = bytes"
    using bytes(2) by (rule unat_of_nat16)
  define marks' where "marks' = mark_from ?off bytes (replicate ?ml False)"
  define data' where "data' = (if length (seg_payload f) > 16
      then std_copy (drop 16 (seg_payload f)) ?off (replicate ?ml (0::byte))
      else replicate ?ml 0)"
  define b' where "b' = \<lparr>rb_message_id = ?key, total_length = message_length ?h,
      received_data = data', received_segments = marks',
      last_sequence_number = sequence_number ?h, complete = False\<rparr>"
  have add: "add_segment_to_buffer ?b f = (True, b')"
  proof (cases "length (seg_payload f) > 16")
    case True
    then have "bytes = length (seg_payload f) - 16" by (simp add: bytes_def)
    with ub have ub': "unat (of_nat (length (seg_payload f) - 16) :: 16 word) =
        length (seg_payload f) - 16"
      by (simp del: of_nat_diff)
    from True notrecv bound ty show ?thesis
      by (simp add: add_segment_to_buffer_def Let_def mark_segment_received_eq ub'
          TpReassemblyBuffer_init_def b'_def data'_def marks'_def bytes_def not_less
          del: of_nat_diff)
  next
    case False
    with notrecv bound ty show ?thesis
      by (simp add: add_segment_to_buffer_def Let_def mark_segment_received_eq
          TpReassemblyBuffer_init_def b'_def data'_def marks'_def bytes_def not_less)
  qed
  define i where "i = (if ?off = 0 then ?ml - 1 else 0)"
  have i: "i < ?ml" "\<not> (?off \<le> i \<and> i < ?off + bytes)"
    using len1 bound bytes(1) by (auto simp: i_def)
  then have "\<not> marks' ! i"
    by (simp add: marks'_def nth_mark_from)
  with i(1) have nc: "\<not> is_complete b'"
    by (auto simp: is_complete_def b'_def list_all_length marks'_def)
  have "process_segment r f cm =
      (True, cm, r\<lparr>reassembly_buffers := (reassembly_buffers r)(?key \<mapsto> b')\<rparr>)"
    using v nc by (simp add: process_segment_def find add)
  then show ?thesis by blast
qed

lemma active_after_insert:
  assumes "reassembly_buffers r key = None"
  shows "get_active_reassemblies (r\<lparr>reassembly_buffers := (reassembly_buffers r)(key \<mapsto> b)\<rparr>) =
         get_active_reassemblies r + 1"
proof -
  have "key \<notin> dom (reassembly_buffers r)" using assms by (simp add: domIff)
  then show ?thesis
    by (simp add: get_active_reassemblies_def)
qed

lemma feed_first_segments:
  assumes "\<forall>f\<in>set fs. validate_segment (re_config r) f \<and>
             tp_message_type (header f) = FIRST_SEGMENT \<and> seg_payload f \<noteq> [] \<and>
             reassembly_buffers r (seg_key f) = None"
    and "distinct (map seg_key fs)"
  shows "re_config (snd (snd (process_segments r fs cm))) = re_config r \<and>
         dom (reassembly_buffers (snd (snd (process_segments r fs cm)))) =
           dom (reassembly_buffers r) \<union> seg_key ` set fs"
  using assms
proof (induction fs arbitrary: r)
  case Nil
  then show ?case by simp
next
  case (Cons f fs)
  from Cons.prems(1) have f: "validate_segment (re_config r) f"
      "tp_message_type (header f) = FIRST_SEGMENT" "seg_payload f \<noteq> []"
      "reassembly_buffers r (ucast (sequence_number (header f))) = None"
    by (simp_all add: seg_key_def)
  from process_new_first_segment [OF f, of cm] obtain b where
    b: "process_segment r f cm =
       (True, cm, r\<lparr>reassembly_buffers := (reassembly_buffers r)(seg_key f \<mapsto> b)\<rparr>)"
    unfolding seg_key_def by blast
  let ?r1 = "r\<lparr>reassembly_buffers := (reassembly_buffers r)(seg_key f \<mapsto> b)\<rparr>"
  have "\<forall>g\<in>set fs. validate_segment (re_config ?r1) g \<and>
             tp_message_type (header g) = FIRST_SEGMENT \<and> seg_payload g \<noteq> [] \<and>
             reassembly_buffers ?r1 (seg_key g) = None"
  proof
    fix g assume g: "g \<in> set fs"
    from Cons.prems(2) have "seg_key f \<notin> seg_key ` set fs" by simp
    with g have "seg_key g \<noteq> seg_key f" by (metis imageI)
    with Cons.prems(1) g
    show "validate_segment (re_config ?r1) g \<and>
             tp_message_type (header g) = FIRST_SEGMENT \<and> seg_payload g \<noteq> [] \<and>
             reassembly_buffers ?r1 (seg_key g) = None"
      by simp
  qed
  moreover have "distinct (map seg_key fs)" using Cons.prems(2) by simp
  ultimately have IH: "re_config (snd (snd (process_segments ?r1 fs cm))) = re_config ?r1 \<and>
         dom (reassembly_buffers (snd (snd (process_segments ?r1 fs cm)))) =
           dom (reassembly_buffers ?r1) \<union> seg_key ` set fs"
    by (rule Cons.IH)
  have "snd (snd (process_segments r (f # fs) cm)) = snd (snd (process_segments ?r1 fs cm))"
    by (simp add: b split: prod.split)
  with IH show ?case by auto
qed

lemma first_only_valid:
  "validate_segment TpConfig_default (first_only sq)"
  "tp_message_type (header (first_only sq)) = FIRST_SEGMENT"
  "seg_payload (first_only sq) \<noteq> []"
  "seg_key (first_only sq) = ucast sq"
  by (simp_all add: validate_segment_def first_only_def TpConfig_default_def seg_key_def)

lemma ten_transfers_state:
  "re_config ten_transfers = TpConfig_default"
  "dom (reassembly_buffers ten_transfers) = {0, 1, 2, 3, 4, 5, 6, 7, 8, 9}"
proof -
  let ?r0 = "TpReassembler_init TpConfig_default"
  let ?fs = "map first_only [0, 1, 2, 3, 4, 5, 6, 7, 8, 9]"
  have "\<forall>f\<in>set ?fs. validate_segment (re_config ?r0) f \<and>
             tp_message_type (header f) = FIRST_SEGMENT \<and> seg_payload f \<noteq> [] \<and>
             reassembly_buffers ?r0 (seg_key f) = None"
    by (simp add: first_only_valid TpReassembler_init_def)
  moreover have "distinct (map seg_key ?fs)"
    by (simp add: first_only_valid)
  ultimately have "re_config ten_transfers = re_config ?r0 \<and>
      dom (reassembly_buffers ten_transfers) = dom (reassembly_buffers ?r0) \<union> seg_key ` set ?fs"
    unfolding ten_transfers_def by (rule feed_first_segments)
  then show "re_config ten_transfers = TpConfig_default"
    "dom (reassembly_buffers ten_transfers) = {0, 1, 2, 3, 4, 5, 6, 7, 8, 9}"
    by (auto simp: TpReassembler_init_def first_only_valid)
qed

lemma ten_transfers_facts:
  "get_active_reassemblies ten_transfers = 10"
  "validate_segment (re_config ten_transfers) (first_only 10)"
  "reassembly_buffers ten_transfers (ucast (sequence_number (header (first_only 10)))) = None"
proof -
  show "get_active_reassemblies ten_transfers = 10"
    by (simp add: get_active_reassemblies_def ten_transfers_state)
  show "validate_segment (re_config ten_transfers) (first_only 10)"
    by (simp add: ten_transfers_state first_only_valid)
  have "(10 :: 32 word) \<notin> dom (reassembly_buffers ten_transfers)"
    by (simp add: ten_transfers_state)
  then show "reassembly_buffers ten_transfers (ucast (sequence_number (header (first_only 10)))) = None"
    by (simp add: first_only_def domIff)
qed

text \<open>
  Claim C5, as stated, fails: the reassembler never looks at
  \<open>max_concurrent_transfers\<close>. Holding ten buffers in the default configuration, it
  accepts the first segment of an eleventh sequence number, returns true, and holds
  eleven buffers.
\<close>

theorem eleventh_buffer_is_created:
  "get_active_reassemblies ten_transfers = 10 \<and>
   max_concurrent_transfers (re_config ten_transfers) = 10 \<and>
   fst (process_segment ten_transfers (first_only 10) []) = True \<and>
   get_active_reassemblies (snd (snd (process_segment ten_transfers (first_only 10) []))) = 11"
proof -
  from process_new_first_segment [OF ten_transfers_facts(2) first_only_valid(2,3)
      ten_transfers_facts(3), of "[]"]
  obtain b where "process_segment ten_transfers (first_only 10) [] =
      (True, [], ten_transfers\<lparr>reassembly_buffers :=
         (reassembly_buffers ten_transfers)
           (ucast (sequence_number (header (first_only 10))) \<mapsto> b)\<rparr>)"
    by blast
  then show ?thesis
    using active_after_insert [OF ten_transfers_facts(3), of b] ten_transfers_facts(1)
    by (simp add: ten_transfers_state TpConfig_default_def)
qed

text \<open>
  Claim C5, amended. For every reassembler state, whatever the number of buffers it
  holds, \<open>process_segment\<close> on a valid \<open>FIRST_SEGMENT\<close> with a non-empty payload and a
  sequence number that has no buffer returns true and leaves the reassembler holding
  one buffer more.
\<close>

theorem first_segment_accepted_at_any_load:
  assumes "validate_segment (re_config r) f"
    and "tp_message_type (header f) = FIRST_SEGMENT"
    and "seg_payload f \<noteq> []"
    and "reassembly_buffers r (ucast (sequence_number (header f))) = None"
  shows "fst (process_segment r f cm) = True \<and>
         get_active_reassemblies (snd (snd (process_segment r f cm))) =
           get_active_reassemblies r + 1"
proof -
  from process_new_first_segment [OF assms, of cm] obtain b where
    "process_segment r f cm =
       (True, cm, r\<lparr>reassembly_buffers :=
                      (reassembly_buffers r)(ucast (sequence_number (header f)) \<mapsto> b)\<rparr>)"
    by blast
  then show ?thesis
    using active_after_insert [OF assms(4), of b] by simp
qed

theorem first_segment_accepted_at_any_load_witness:
  "get_active_reassemblies ten_transfers = 10 \<and>
   validate_segment (re_config ten_transfers) (first_only 10) \<and>
   tp_message_type (header (first_only 10)) = FIRST_SEGMENT \<and>
   seg_payload (first_only 10) \<noteq> [] \<and>
   reassembly_buffers ten_transfers (ucast (sequence_number (header (first_only 10)))) = None \<and>
   fst (process_segment ten_transfers (first_only 10) []) = True \<and>
   get_active_reassemblies (snd (snd (process_segment ten_transfers (first_only 10) []))) =
     get_active_reassemblies ten_transfers + 1"
  using first_segment_accepted_at_any_load [OF ten_transfers_facts(2) first_only_valid(2,3)
      ten_transfers_facts(3), of "[]"]
    ten_transfers_facts first_only_valid(2,3) [of 10]
  by (intro conjI) simp_all

lemma s3_segments:
  "segment_message (TpSegmenter_init tp_config_100) message_350 [] =
     Some (SUCCESS_TP, [s3_first, s3_consecutive_1, s3_consecutive_2, s3_last],
           \<lparr>seg_config = tp_config_100, next_sequence_number = 2\<rparr>)"
  by (simp add: segment_message_def create_multi_segments_def TpSegmenter_init_def
      tp_config_100_def TpConfig_default_def message_350_def Message_make_def set_payload_def
      update_length_def Let_def segment_loop.simps Message_serialize_def be32_def
      MessageId_to_uint32_def RequestId_to_uint32_def SOMEIP_PROTOCOL_VERSION_def
      SOMEIP_INTERFACE_VERSION_def s3_first_def s3_consecutive_1_def s3_consecutive_2_def
      s3_last_def message_350_header_def)

lemma s3_facts:
  "seg_config (TpSegmenter_init tp_config_100) = tp_config_100"
  "re_config (TpReassembler_init tp_config_100) = tp_config_100"
  "16 \<le> unat (max_segment_size tp_config_100)"
  "unat (max_segment_size tp_config_100) < length (payload message_350)"
  "length (payload message_350) < 65536"
  "length (payload message_350) \<le> unat (max_message_size tp_config_100)"
  "reassembly_buffers (TpReassembler_init tp_config_100)
     (ucast (next_sequence_number (TpSegmenter_init tp_config_100))) = None"
  "payload message_350 = replicate 350 0x55"
  by (simp_all add: TpSegmenter_init_def TpReassembler_init_def tp_config_100_def
      TpConfig_default_def message_350_def Message_make_def set_payload_def update_length_def)

lemma s3_distinct:
  "distinct [s3_last, s3_consecutive_2, s3_consecutive_1]"
  by (simp add: s3_last_def s3_consecutive_2_def s3_consecutive_1_def)

lemma rejected_before_first:
  assumes "\<forall>g\<in>set pre. (tp_message_type (header g) = CONSECUTIVE_SEGMENT \<or>
                          tp_message_type (header g) = LAST_SEGMENT) \<and>
                         reassembly_buffers r (ucast (sequence_number (header g))) = None"
  shows "process_segments r pre cm = (replicate (length pre) False, cm, r)"
  using assms
  by (induction pre) (simp_all add: process_without_buffer)

text \<open>
  When segments of a split message are fed before its first segment, each of them is
  rejected, and the reassembly is still incomplete after the first segment and any of
  the remaining segments have been fed.
\<close>

lemma first_fed_late:
  assumes cfg: "seg_config s = cfg" "re_config r = cfg"
    and M: "16 \<le> unat (max_segment_size cfg)"
      "unat (max_segment_size cfg) < length (payload m)"
    and N: "length (payload m) < 65536"
    and mms: "length (payload m) \<le> unat (max_message_size cfg)"
    and free: "reassembly_buffers r (ucast (next_sequence_number s)) = None"
    and seg: "segment_message s m [] = Some (res, first # rest, s')"
    and pre: "pre \<noteq> []" and dist: "distinct (pre @ post)"
    and sub: "set (pre @ post) \<subseteq> set rest"
  shows "\<exists>r_end. process_segments r (pre @ first # post) cm =
                    (replicate (length pre) False @ True # replicate (length post) True,
                     cm, r_end) \<and>
                  reassembly_buffers r_end (ucast (next_sequence_number s)) \<noteq> None"
proof -
  let ?P = "payload m" and ?sq = "next_sequence_number s"
  let ?M = "unat (max_segment_size cfg)"
  let ?F = "?M - 16" and ?key = "ucast ?sq :: 32 word"
  let ?hdr = "take 16 (Message_serialize m)"
  from segment_message_split [of s m "[]"] M N mms cfg(1) seg
  have first: "first = first_segment ?hdr ?P ?M ?sq" and t: "tiles ?P ?M ?sq ?F rest"
    by auto
  have mms': "length ?P \<le> unat (max_message_size (re_config r))"
    using mms cfg(2) by simp
  have lh: "length ?hdr = 16" by (simp add: length_Message_serialize)
  have "\<forall>g\<in>set pre. (tp_message_type (header g) = CONSECUTIVE_SEGMENT \<or>
                          tp_message_type (header g) = LAST_SEGMENT) \<and>
                         reassembly_buffers r (ucast (sequence_number (header g))) = None"
  proof
    fix g assume "g \<in> set pre"
    with sub have g: "g \<in> set rest" by auto
    from tiles_member(7,8) [OF t g] free
    show "(tp_message_type (header g) = CONSECUTIVE_SEGMENT \<or>
           tp_message_type (header g) = LAST_SEGMENT) \<and>
          reassembly_buffers r (ucast (sequence_number (header g))) = None"
      by simp
  qed
  then have p1: "process_segments r pre cm = (replicate (length pre) False, cm, r)"
    by (rule rejected_before_first)
  from process_first_segment [OF N M lh mms' free, of cm]
  obtain b0 where b0: "process_segment r first cm =
      (True, cm, r\<lparr>reassembly_buffers := (reassembly_buffers r)(?key \<mapsto> b0)\<rparr>)"
    "buffer_holds ?P ?F ?key {} b0"
    unfolding first by blast
  from pre obtain g0 where g0: "g0 \<in> set pre" by (cases pre) auto
  with dist sub have "g0 \<in> set rest" "g0 \<notin> set post" by auto
  then have ne: "{} \<union> set post \<noteq> set rest" by auto
  have dpost: "distinct post" "set post \<subseteq> set rest" using dist sub by auto
  from feed_partial [OF t N mms' refl dpost _ _ ne b0(2), of cm]
  obtain b1 where b1: "process_segments (r\<lparr>reassembly_buffers := (reassembly_buffers r)(?key \<mapsto> b0)\<rparr>) post cm =
      (replicate (length post) True, cm, r\<lparr>reassembly_buffers := (reassembly_buffers r)(?key \<mapsto> b1)\<rparr>)"
    by auto
  have p2: "process_segments r (first # post) cm =
      (True # replicate (length post) True, cm,
       r\<lparr>reassembly_buffers := (reassembly_buffers r)(?key \<mapsto> b1)\<rparr>)"
    by (simp only: process_segments.simps b0(1) b1 prod.case)
  have "process_segments r (pre @ first # post) cm =
      (replicate (length pre) False @ True # replicate (length post) True, cm,
       r\<lparr>reassembly_buffers := (reassembly_buffers r)(?key \<mapsto> b1)\<rparr>)"
    unfolding process_segments_append [of r pre "first # post" cm] p1 prod.case p2 ..
  then show ?thesis by auto
qed

text \<open>
  Claim C3, as stated, fails: \<open>find_or_create_buffer\<close> creates a buffer only for a first
  (or single) segment and rejects any other segment that finds none. For the 350-byte
  message and segments of at most 100 bytes, the order LAST, CONSECUTIVE 2, FIRST,
  CONSECUTIVE 1 gives the results false, false, true, true, no completed message, and a
  buffer that is still waiting.
\<close>

theorem s4_out_of_order_does_not_complete:
  "segment_message (TpSegmenter_init tp_config_100) message_350 [] =
     Some (SUCCESS_TP, [s3_first, s3_consecutive_1, s3_consecutive_2, s3_last],
           \<lparr>seg_config = tp_config_100, next_sequence_number = 2\<rparr>) \<and>
   fst (process_segments (TpReassembler_init tp_config_100)
          [s3_last, s3_consecutive_2, s3_first, s3_consecutive_1] []) =
     [False, False, True, True] \<and>
   fst (snd (process_segments (TpReassembler_init tp_config_100)
          [s3_last, s3_consecutive_2, s3_first, s3_consecutive_1] [])) = [] \<and>
   reassembly_buffers
     (snd (snd (process_segments (TpReassembler_init tp_config_100)
          [s3_last, s3_consecutive_2, s3_first, s3_consecutive_1] []))) 0 \<noteq> None"
proof -
  have d: "distinct ([s3_last, s3_consecutive_2] @ [s3_consecutive_1])"
    using s3_distinct by simp
  have sub: "set ([s3_last, s3_consecutive_2] @ [s3_consecutive_1]) \<subseteq>
      set [s3_consecutive_1, s3_consecutive_2, s3_last]"
    by simp
  from first_fed_late [OF s3_facts(1-7) s3_segments _ d sub, of "[]"]
  obtain r_end where r: "process_segments (TpReassembler_init tp_config_100)
      ([s3_last, s3_consecutive_2] @ s3_first # [s3_consecutive_1]) [] =
      (replicate (length [s3_last, s3_consecutive_2]) False @
         True # replicate (length [s3_consecutive_1]) True, [], r_end)"
    "reassembly_buffers r_end (ucast (next_sequence_number (TpSegmenter_init tp_config_100))) \<noteq> None"
    by blast
  have k: "(ucast (next_sequence_number (TpSegmenter_init tp_config_100)) :: 32 word) = 0"
    by (simp add: TpSegmenter_init_def)
  from r show ?thesis
    by (simp add: s3_segments k)
qed

text \<open>
  Claim C3, amended. Let a message with a payload of \<open>N < 65536\<close> bytes be split by the
  segmenter (\<open>16 \<le> max_segment_size < N \<le> max_message_size\<close>) into a first segment and
  the rest, and let a reassembler with the same configuration hold no buffer for the
  sequence number. Feeding the first segment and then the rest in any order succeeds at
  every step, completes on the final feed and not before, returns exactly the message's
  payload, and leaves the reassembler as it was before the first feed.
\<close>

theorem reassembly_first_then_any_order:
  assumes cfg: "seg_config s = cfg" "re_config r = cfg"
    and M: "16 \<le> unat (max_segment_size cfg)"
      "unat (max_segment_size cfg) < length (payload m)"
    and N: "length (payload m) < 65536"
    and mms: "length (payload m) \<le> unat (max_message_size cfg)"
    and free: "reassembly_buffers r (ucast (next_sequence_number s)) = None"
    and seg: "segment_message s m [] = Some (res, first # rest, s')"
    and perm: "mset order = mset rest"
  shows "process_segments r (first # order) cm =
           (replicate (Suc (length rest)) True, payload m, r) \<and>
         (\<exists>r_mid. process_segments r (butlast (first # order)) cm =
                     (replicate (length rest) True, cm, r_mid) \<and>
                   reassembly_buffers r_mid (ucast (next_sequence_number s)) \<noteq> None)"
proof -
  let ?P = "payload m" and ?sq = "next_sequence_number s"
  let ?M = "unat (max_segment_size cfg)"
  let ?F = "?M - 16" and ?key = "ucast ?sq :: 32 word"
  let ?hdr = "take 16 (Message_serialize m)"
  from segment_message_split [of s m "[]"] M N mms cfg(1) seg
  have first: "first = first_segment ?hdr ?P ?M ?sq" and t: "tiles ?P ?M ?sq ?F rest"
    by auto
  have mms': "length ?P \<le> unat (max_message_size (re_config r))"
    using mms cfg(2) by simp
  have lh: "length ?hdr = 16" by (simp add: length_Message_serialize)
  from process_first_segment [OF N M lh mms' free, of cm]
  obtain b0 where b0: "process_segment r first cm =
      (True, cm, r\<lparr>reassembly_buffers := (reassembly_buffers r)(?key \<mapsto> b0)\<rparr>)"
    "buffer_holds ?P ?F ?key {} b0"
    unfolding first by blast
  have set_eq: "set order = set rest" using perm by (rule mset_eq_setD)
  have len_eq: "length order = length rest" using perm by (rule mset_eq_length)
  have dist: "distinct order"
    using tiles_distinct [OF t] perm by (metis mset_eq_imp_distinct_iff)
  have "rest \<noteq> []"
  proof
    assume "rest = []"
    with t have "?F = length ?P" by simp
    with M show False by simp
  qed
  with len_eq have ne: "order \<noteq> []" by auto
  define ys where "ys = butlast order"
  define g where "g = last order"
  have order: "order = ys @ [g]" using ne by (simp add: ys_def g_def)
  have g: "g \<in> set rest" "g \<notin> set ys" "insert g (set ys) = set rest"
    and dys: "distinct ys" and sub: "set ys \<subseteq> set rest"
    using dist set_eq unfolding order by auto
  have "{} \<union> set ys \<noteq> set rest" using g by auto
  from feed_partial [OF t N mms' refl dys sub _ _ this b0(2), of cm]
  obtain b1 where b1: "process_segments (r\<lparr>reassembly_buffers := (reassembly_buffers r)(?key \<mapsto> b0)\<rparr>) ys cm =
      (replicate (length ys) True, cm, r\<lparr>reassembly_buffers := (reassembly_buffers r)(?key \<mapsto> b1)\<rparr>)"
    "buffer_holds ?P ?F ?key ({} \<union> set ys) b1"
    by auto
  from b1(2) have hold1: "buffer_holds ?P ?F ?key (set ys) b1" by simp
  have fin: "process_segment (r\<lparr>reassembly_buffers := (reassembly_buffers r)(?key \<mapsto> b1)\<rparr>) g cm =
      (True, ?P, r\<lparr>reassembly_buffers := (reassembly_buffers r)(?key := None)\<rparr>)"
    by (rule feed_last [OF t N mms' refl g hold1])
  have restore: "r\<lparr>reassembly_buffers := (reassembly_buffers r)(?key := None)\<rparr> = r"
    using free by (simp add: fun_upd_idem)
  have lys: "Suc (length ys) = length rest"
    using len_eq by (simp add: order)
  have "process_segments r (first # ys) cm =
      (True # replicate (length ys) True, cm,
       r\<lparr>reassembly_buffers := (reassembly_buffers r)(?key \<mapsto> b1)\<rparr>)"
    by (simp only: process_segments.simps b0(1) b1(1) prod.case)
  then have mid: "process_segments r (first # ys) cm =
      (replicate (length rest) True, cm,
       r\<lparr>reassembly_buffers := (reassembly_buffers r)(?key \<mapsto> b1)\<rparr>)"
    by (simp add: lys [symmetric])
  have one: "process_segments (r\<lparr>reassembly_buffers := (reassembly_buffers r)(?key \<mapsto> b1)\<rparr>) [g] cm =
      ([True], ?P, r)"
    by (simp only: process_segments.simps fin restore prod.case)
  have "process_segments r ((first # ys) @ [g]) cm =
      (replicate (length rest) True @ [True], ?P, r)"
    unfolding process_segments_append [of r "first # ys" "[g]" cm] mid prod.case one ..
  then have all: "process_segments r (first # order) cm =
      (replicate (Suc (length rest)) True, ?P, r)"
    by (simp add: order replicate_append_same)
  have "butlast (first # order) = first # ys"
    using ne by (simp add: ys_def)
  with mid have "\<exists>r_mid. process_segments r (butlast (first # order)) cm =
                     (replicate (length rest) True, cm, r_mid) \<and>
                   reassembly_buffers r_mid ?key \<noteq> None"
    by simp
  with all show ?thesis by blast
qed

theorem reassembly_first_then_any_order_witness:
  "seg_config (TpSegmenter_init tp_config_100) = tp_config_100 \<and>
   re_config (TpReassembler_init tp_config_100) = tp_config_100 \<and>
   16 \<le> unat (max_segment_size tp_config_100) \<and>
   unat (max_segment_size tp_config_100) < length (payload message_350) \<and>
   length (payload message_350) < 65536 \<and>
   length (payload message_350) \<le> unat (max_message_size tp_config_100) \<and>
   reassembly_buffers (TpReassembler_init tp_config_100)
     (ucast (next_sequence_number (TpSegmenter_init tp_config_100))) = None \<and>
   segment_message (TpSegmenter_init tp_config_100) message_350 [] =
     Some (SUCCESS_TP, [s3_first, s3_consecutive_1, s3_consecutive_2, s3_last],
           \<lparr>seg_config = tp_config_100, next_sequence_number = 2\<rparr>) \<and>
   mset [s3_last, s3_consecutive_2, s3_consecutive_1] =
     mset [s3_consecutive_1, s3_consecutive_2, s3_last] \<and>
   process_segments (TpReassembler_init tp_config_100)
     [s3_first, s3_last, s3_consecutive_2, s3_consecutive_1] [] =
     ([True, True, True, True], replicate 350 0x55, TpReassembler_init tp_config_100) \<and>
   fst (snd (process_segments (TpReassembler_init tp_config_100)
     [s3_first, s3_last, s3_consecutive_2] [])) = []"
proof -
  have p: "mset [s3_last, s3_consecutive_2, s3_consecutive_1] =
     mset [s3_consecutive_1, s3_consecutive_2, s3_last]"
    by simp
  from reassembly_first_then_any_order [OF s3_facts(1-7) s3_segments p, of "[]"]
  have "process_segments (TpReassembler_init tp_config_100)
          [s3_first, s3_last, s3_consecutive_2, s3_consecutive_1] [] =
        ([True, True, True, True], replicate 350 0x55, TpReassembler_init tp_config_100)"
    and "fst (snd (process_segments (TpReassembler_init tp_config_100)
          [s3_first, s3_last, s3_consecutive_2] [])) = []"
    by (auto simp: s3_facts(8))
  with s3_facts(1-7) s3_segments p show ?thesis
    by (intro conjI)
qed

end
